theory Spec2Isabelle
  imports Complex_Main
begin

section \<open>Data model\<close>

text \<open>
  A normalized feed entry, as \<^verbatim>\<open>stripPostData\<close> builds it. The field \<^verbatim>\<open>id\<close> is copied
  from the response entry whatever it holds, so it can be \<^verbatim>\<open>undefined\<close> (\<open>None\<close>); a JavaScript
  \<^verbatim>\<open>Set\<close> treats \<^verbatim>\<open>undefined\<close> as one more key, which is what equality on
  \<open>string option\<close> does. \<^verbatim>\<open>created_utc\<close> is in seconds since the epoch.
\<close>

record post =
  post_id :: "string option"
  title :: string
  author :: string
  subreddit :: string
  permalink :: string
  created_utc :: int
  ups :: int
  num_comments :: int
  selftext :: string
  url :: string
  is_video :: bool
  gallery :: "string list option"
  video_url :: "string option"
  audio_url :: "string option"

text \<open>\<^verbatim>\<open>pending: { posts: [], count: 0 }\<close>\<close>

record pending =
  pending_posts :: "post list"
  pending_count :: nat

text \<open>\<^verbatim>\<open>{ posts: [], pending: {...}, lastFetch: {}, currentPage: 1 }\<close>\<close>

record feed =
  posts :: "post list"
  pending :: pending
  lastFetch :: "string \<rightharpoonup> int"
  currentPage :: nat

text \<open>
  A job of the sync queue. \<^verbatim>\<open>type\<close> is the string the caller passed
  (\<^verbatim>\<open>'fetch_subreddit'\<close>, \<^verbatim>\<open>'fetch_popular'\<close>), \<^verbatim>\<open>subreddit\<close> is \<^verbatim>\<open>null\<close> for the popular feed.
\<close>

datatype job_status = Pending | Processing | Failed | FailedMaxRetries | Completed

record job =
  job_id :: string
  job_type :: string
  job_subreddit :: "string option"
  status :: job_status
  retries :: nat
  timestamp :: int
  startTime :: "int option"

text \<open>\<^verbatim>\<open>state.rateLimitState\<close>; times are milliseconds since the epoch, as \<^verbatim>\<open>Date.now()\<close> gives them.\<close>

record rate_limit_state =
  lastRequestTime :: int
  remainingRequests :: int
  resetTime :: int
  requestCount :: nat

text \<open>
  The global \<^verbatim>\<open>state\<close> object: \<open>my\<close>, \<open>popular\<close> and \<open>starred\<close> are
  \<^verbatim>\<open>state.feeds.my\<close>, \<^verbatim>\<open>state.feeds.popular\<close> and \<^verbatim>\<open>state.feeds.starred.posts\<close>;
  \<open>popular_filtered\<close> is the cache \<^verbatim>\<open>state.feeds.popular.filtered\<close>. The fields that only
  drive the user interface (toast handle, country suggestions) are left out.
\<close>

record app_state =
  my :: feed
  popular :: feed
  popular_filtered :: "post list"
  starred :: "post list"
  subreddits :: "string list"
  blocked :: "string list"
  blockedUsers :: "string list"
  current :: string
  rateLimitState :: rate_limit_state
  syncQueue :: "job list"
  isProcessingQueue :: bool
  storageQuota :: rat
  updateAvailable :: bool

datatype feed_type = FeedMy | FeedPopular

definition feed_of :: "feed_type \<Rightarrow> app_state \<Rightarrow> feed" where
  "feed_of feedType s = (case feedType of FeedMy \<Rightarrow> my s | FeedPopular \<Rightarrow> popular s)"

definition set_feed :: "feed_type \<Rightarrow> feed \<Rightarrow> app_state \<Rightarrow> app_state" where
  "set_feed feedType fd s =
     (case feedType of FeedMy \<Rightarrow> s\<lparr>my := fd\<rparr> | FeedPopular \<Rightarrow> s\<lparr>popular := fd\<rparr>)"

section \<open>Configuration\<close>

definition REQUESTS_PER_MINUTE :: int where "REQUESTS_PER_MINUTE = 50"
definition REQUEST_INTERVAL :: int where "REQUEST_INTERVAL = 1200"
definition MAX_RETRIES :: nat where "MAX_RETRIES = 3"
definition POSTS_LIMIT :: nat where "POSTS_LIMIT = 25"
definition RATE_LIMIT_RESET_INTERVAL :: int where "RATE_LIMIT_RESET_INTERVAL = 60 * 1000"
definition REQUEST_TIMEOUT :: int where "REQUEST_TIMEOUT = 15000"
definition CLEANUP_THRESHOLD :: rat where "CLEANUP_THRESHOLD = 90"
definition MAX_POST_AGE_DAYS :: int where "MAX_POST_AGE_DAYS = 30"
definition IMAGE_MIN_WIDTH :: int where "IMAGE_MIN_WIDTH = 640"
definition IMAGE_MAX_WIDTH :: int where "IMAGE_MAX_WIDTH = 960"
definition RETRY_DELAY_MS :: int where "RETRY_DELAY_MS = 1000"

section \<open>Merger and deduplicator\<close>

text \<open>
  \<^verbatim>\<open>String.prototype.toLowerCase\<close> on the ASCII letters; subreddit and user names are ASCII.
\<close>

definition lower_char :: "char \<Rightarrow> char" where
  "lower_char c =
     (if 65 \<le> (of_char c :: nat) \<and> (of_char c :: nat) \<le> 90
      then (case c of Char b0 b1 b2 b3 b4 b5 b6 b7 \<Rightarrow> Char b0 b1 b2 b3 b4 True b6 b7)
      else c)"

definition toLowerCase :: "string \<Rightarrow> string" where
  "toLowerCase s = map lower_char s"

text \<open>
  \<^verbatim>\<open>seen = new Set(); posts.filter(post => { if (seen.has(post.id)) return false;
  seen.add(post.id); return true; })\<close>: the filter callback with the set it mutates.
\<close>

fun removeDuplicates_seen :: "string option set \<Rightarrow> post list \<Rightarrow> post list" where
  "removeDuplicates_seen seen [] = []"
| "removeDuplicates_seen seen (p # ps) =
     (if post_id p \<in> seen then removeDuplicates_seen seen ps
      else p # removeDuplicates_seen (insert (post_id p) seen) ps)"

definition removeDuplicates :: "post list \<Rightarrow> post list" where
  "removeDuplicates ps = removeDuplicates_seen {} ps"

text \<open>
  The filter predicate of \<^verbatim>\<open>getNewPostsOnly\<close>:
  \<^verbatim>\<open>!subreddit || p.subreddit.toLowerCase() === subreddit.toLowerCase()\<close>.
  \<^verbatim>\<open>!subreddit\<close> holds for \<^verbatim>\<open>null\<close> and for the empty string.
\<close>

definition falsy :: "string option \<Rightarrow> bool" where
  "falsy sub = (case sub of None \<Rightarrow> True | Some s \<Rightarrow> s = [])"

definition matches_subreddit :: "string option \<Rightarrow> post \<Rightarrow> bool" where
  "matches_subreddit sub p =
     (falsy sub \<or> toLowerCase (subreddit p) = toLowerCase (the sub))"

definition existingIds :: "string option \<Rightarrow> feed \<Rightarrow> string option set" where
  "existingIds sub fd =
     set (map post_id (filter (matches_subreddit sub) (posts fd))
          @ map post_id (filter (matches_subreddit sub) (pending_posts (pending fd))))"

definition getNewPostsOnly :: "post list \<Rightarrow> string option \<Rightarrow> feed_type \<Rightarrow> app_state \<Rightarrow> post list" where
  "getNewPostsOnly fetchedPosts sub feedType s =
     filter (\<lambda>p. post_id p \<notin> existingIds sub (feed_of feedType s)) fetchedPosts"

text \<open>\<^verbatim>\<open>Math.max(...xs)\<close> for a list that is not empty (the only call is under that guard).\<close>

definition math_max :: "int list \<Rightarrow> int" where
  "math_max xs = fold max (tl xs) (hd xs)"

text \<open>
  \<^verbatim>\<open>addPostsToPending\<close>. The body runs as one callback of the promise chain
  \<^verbatim>\<open>pendingPostsLock\<close>, so calls never interleave: a call is one state transformer.
\<close>

definition addPostsToPending :: "post list \<Rightarrow> feed_type \<Rightarrow> string option \<Rightarrow> app_state \<Rightarrow> app_state" where
  "addPostsToPending fetched feedType sub s =
     (let fd = feed_of feedType s;
          newPosts = getNewPostsOnly fetched sub feedType s
      in if length newPosts > 0 then
           let staged = pending_posts (pending fd) @ newPosts;
               fd1 = fd\<lparr>pending := (pending fd)\<lparr>pending_posts := staged, pending_count := length staged\<rparr>\<rparr>;
               newest = math_max (map created_utc newPosts);
               fd2 = (if \<not> falsy sub then fd1\<lparr>lastFetch := (lastFetch fd1)(the sub \<mapsto> newest)\<rparr>
                      else if feedType = FeedPopular
                      then fd1\<lparr>lastFetch := (lastFetch fd1)(''_popular'' \<mapsto> newest)\<rparr>
                      else fd1)
           in set_feed feedType fd2 s
         else s)"

text \<open>\<^verbatim>\<open>rebuildPopularFiltered\<close>\<close>

definition rebuildPopularFiltered :: "app_state \<Rightarrow> app_state" where
  "rebuildPopularFiltered s =
     s\<lparr>popular_filtered :=
         filter (\<lambda>p. \<not> list_ex (\<lambda>b. toLowerCase b = toLowerCase (subreddit p)) (blocked s))
                (posts (popular s))\<rparr>"

text \<open>
  \<^verbatim>\<open>.sort((a, b) => b.created_utc - a.created_utc)\<close>: \<^verbatim>\<open>Array.prototype.sort\<close> is a stable
  sort; by descending \<^verbatim>\<open>created_utc\<close> it is the stable insertion sort on the negated key.
\<close>

definition sort_created_desc :: "post list \<Rightarrow> post list" where
  "sort_created_desc ps = sort_key (\<lambda>p. - created_utc p) ps"

text \<open>
  The merge both \<^verbatim>\<open>applyPendingUpdates\<close> and the auto-apply of \<^verbatim>\<open>processSyncQueue\<close> perform
  on one feed: \<^verbatim>\<open>allPosts = [...pending.posts, ...posts]\<close>,
  \<^verbatim>\<open>posts = removeDuplicates(allPosts).sort(...)\<close>, \<^verbatim>\<open>pending = { posts: [], count: 0 }\<close>.
\<close>

definition merge_pending :: "feed \<Rightarrow> feed" where
  "merge_pending fd =
     fd\<lparr>posts := sort_created_desc (removeDuplicates (pending_posts (pending fd) @ posts fd)),
        pending := \<lparr>pending_posts = [], pending_count = 0\<rparr>\<rparr>"

section \<open>Environment and storage manager\<close>

text \<open>
  What the program reads from outside \<^verbatim>\<open>state\<close>: the clock (\<^verbatim>\<open>Date.now()\<close>, milliseconds),
  \<^verbatim>\<open>navigator.onLine\<close>, the size \<^verbatim>\<open>getLocalStorageSize()\<close> measures, and how the coming calls
  of \<^verbatim>\<open>localStorage.setItem\<close> end: the value is stored (and the measured size becomes the
  given one), or the call throws \<^verbatim>\<open>QuotaExceededError\<close>, or it throws something else.
  The script of outcomes is finite; when it is used up a write succeeds and leaves the
  measured size as it is. So the model has the runs in which the storage refuses finitely many
  writes, however many. A storage that refuses every write while the measured size stays at
  or above the threshold is not among them: there \<^verbatim>\<open>saveState\<close> and \<^verbatim>\<open>cleanupOldPosts\<close> call
  each other until the engine gives up. \<open>fetches\<close> and \<open>timers\<close> count the calls of
  \<^verbatim>\<open>fetch\<close> and of \<^verbatim>\<open>setTimeout\<close> awaited so far.
\<close>

datatype write_outcome = Stored nat | QuotaExceededError | OtherError

record world =
  clock :: int
  online :: bool
  ls_size :: nat
  writes :: "write_outcome list"
  fetches :: nat
  timers :: nat

definition setItem :: "world \<Rightarrow> write_outcome \<times> world" where
  "setItem w =
     (case writes w of
        [] \<Rightarrow> (Stored (ls_size w), w)
      | Stored n # rest \<Rightarrow> (Stored n, w\<lparr>ls_size := n, writes := rest\<rparr>)
      | out # rest \<Rightarrow> (out, w\<lparr>writes := rest\<rparr>))"

text \<open>
  \<^verbatim>\<open>getStorageUsagePercent\<close>: \<^verbatim>\<open>(getLocalStorageSize() / state.storageQuota) * 100\<close>. With a
  quota of 0 JavaScript yields \<^verbatim>\<open>Infinity\<close> or \<^verbatim>\<open>NaN\<close>, and neither is below any threshold:
  that case is \<open>None\<close>.
\<close>

definition getStorageUsagePercent :: "world \<Rightarrow> app_state \<Rightarrow> rat option" where
  "getStorageUsagePercent w s =
     (if storageQuota s = 0 then None
      else Some (of_nat (ls_size w) / storageQuota s * 100))"

definition below_threshold :: "world \<Rightarrow> app_state \<Rightarrow> bool" where
  "below_threshold w s =
     (case getStorageUsagePercent w s of None \<Rightarrow> False | Some percent \<Rightarrow> percent < CLEANUP_THRESHOLD)"

definition bookmarkedIds :: "app_state \<Rightarrow> string option set" where
  "bookmarkedIds s = set (map post_id (starred s))"

text \<open>
  \<^verbatim>\<open>Math.ceil(state.feeds.my.posts.length * 0.2)\<close>. The product is computed in doubles; for
  a multiple of five it rounds to the exact fifth, and otherwise it is at least 0.2 away
  from an integer, so the ceiling is that of the exact fifth.
\<close>

definition removeCount :: "app_state \<Rightarrow> nat" where
  "removeCount s = (length (posts (my s)) + 4) div 5"

text \<open>
  The loop of \<^verbatim>\<open>cleanupOldPosts\<close>,
  \<^verbatim>\<open>for (i = length - 1; i >= 0 && removedIds.size < removeCount; i--)\<close>, over the posts
  it still has to visit (the feed reversed: it scans from the tail).
\<close>

fun collect_removed :: "string option set \<Rightarrow> nat \<Rightarrow> post list \<Rightarrow> string option set \<Rightarrow> string option set" where
  "collect_removed bookmarked n [] removedIds = removedIds"
| "collect_removed bookmarked n (p # ps) removedIds =
     (if card removedIds < n
      then collect_removed bookmarked n ps
             (if post_id p \<notin> bookmarked then insert (post_id p) removedIds else removedIds)
      else removedIds)"

definition removedIds :: "app_state \<Rightarrow> string option set" where
  "removedIds s = collect_removed (bookmarkedIds s) (removeCount s) (rev (posts (my s))) {}"

text \<open>The two \<^verbatim>\<open>filter\<close> assignments of \<^verbatim>\<open>cleanupOldPosts\<close>.\<close>

definition evict_oldest :: "app_state \<Rightarrow> app_state" where
  "evict_oldest s =
     (let removed = removedIds s
      in s\<lparr>my := (my s)\<lparr>posts := filter (\<lambda>p. post_id p \<notin> removed) (posts (my s))\<rparr>,
           popular := (popular s)\<lparr>posts := filter (\<lambda>p. post_id p \<notin> removed) (posts (popular s))\<rparr>\<rparr>)"

lemma setItem_quota_shorter:
  "(QuotaExceededError, w1) = setItem w \<Longrightarrow> Suc (length (writes w1)) \<le> length (writes w)"
  by (auto simp: setItem_def split: list.splits write_outcome.splits)

text \<open>
  \<^verbatim>\<open>saveState\<close> and \<^verbatim>\<open>cleanupOldPosts\<close> call each other: a write that throws
  \<^verbatim>\<open>QuotaExceededError\<close> runs the eviction, and the eviction ends with \<^verbatim>\<open>saveState()\<close>.
  After the eviction the handler's \<^verbatim>\<open>try { localStorage.setItem('appState',
  JSON.stringify(toSave)); return true; } catch (e) { return false; }\<close> names \<^verbatim>\<open>toSave\<close>, a
  \<^verbatim>\<open>const\<close> of the outer \<^verbatim>\<open>try\<close> block that is not in scope in the handler: evaluating the
  argument throws a \<^verbatim>\<open>ReferenceError\<close> before \<^verbatim>\<open>setItem\<close> is called, the inner handler catches
  it, and \<^verbatim>\<open>saveState\<close> returns \<^verbatim>\<open>false\<close> without a second write. \<^verbatim>\<open>saveState\<close> returns
  \<^verbatim>\<open>true\<close> only when its first write stored the value.
\<close>

function saveState :: "world \<Rightarrow> app_state \<Rightarrow> bool \<times> world \<times> app_state"
  and cleanupOldPosts :: "world \<Rightarrow> app_state \<Rightarrow> world \<times> app_state"
where
  "saveState w s =
     (case setItem w of
        (Stored n, w1) \<Rightarrow> (True, w1, s)
      | (OtherError, w1) \<Rightarrow> (False, w1, s)
      | (QuotaExceededError, w1) \<Rightarrow>
          (case cleanupOldPosts w1 s of (w2, s2) \<Rightarrow> (False, w2, s2)))"
| "cleanupOldPosts w s =
     (if below_threshold w s then (w, s)
      else case saveState w (evict_oldest s) of (ok, w1, s1) \<Rightarrow> (w1, s1))"
  by pat_completeness auto
termination
  by (relation "measure (\<lambda>x. case x of Inl (w, s) \<Rightarrow> 2 * length (writes w) + 1
                                      | Inr (w, s) \<Rightarrow> 2 * length (writes w) + 2)")
     (auto dest!: setItem_quota_shorter)

text \<open>
  \<^verbatim>\<open>cleanupOldPostsByAge\<close>. \<^verbatim>\<open>now = Date.now() / 1000\<close> and
  \<^verbatim>\<open>age = now - post.created_utc\<close> are computed exactly.
\<close>

definition maxAge :: int where
  "maxAge = MAX_POST_AGE_DAYS * 24 * 60 * 60"

definition isOld :: "world \<Rightarrow> post \<Rightarrow> bool" where
  "isOld w p = ((of_int (clock w) / 1000 :: rat) - of_int (created_utc p) > of_int maxAge)"

definition keep_by_age :: "world \<Rightarrow> app_state \<Rightarrow> post \<Rightarrow> bool" where
  "keep_by_age w s p = (\<not> (isOld w p \<and> post_id p \<notin> bookmarkedIds s))"

definition cleanupOldPostsByAge :: "world \<Rightarrow> app_state \<Rightarrow> world \<times> app_state" where
  "cleanupOldPostsByAge w s =
     (let myKept = filter (keep_by_age w s) (posts (my s));
          popKept = filter (keep_by_age w s) (posts (popular s));
          removedCount = (length (posts (my s)) - length myKept)
                       + (length (posts (popular s)) - length popKept);
          s1 = s\<lparr>my := (my s)\<lparr>posts := myKept\<rparr>, popular := (popular s)\<lparr>posts := popKept\<rparr>\<rparr>
      in if removedCount > 0 then (case saveState w s1 of (ok, w1, s2) \<Rightarrow> (w1, s2))
         else (w, s1))"

text \<open>
  \<^verbatim>\<open>applyPendingUpdates\<close>: merge each feed that has staged posts, save, clean by age. The
  rest of the function redraws the page.
\<close>

definition applyPendingUpdates :: "world \<Rightarrow> app_state \<Rightarrow> world \<times> app_state" where
  "applyPendingUpdates w s =
     (let s1 = (if length (pending_posts (pending (my s))) > 0
                then s\<lparr>my := merge_pending (my s)\<rparr> else s);
          s2 = (if length (pending_posts (pending (popular s1))) > 0
                then rebuildPopularFiltered (s1\<lparr>popular := merge_pending (popular s1)\<rparr>) else s1)
      in case saveState w s2 of (ok, w1, s3) \<Rightarrow> cleanupOldPostsByAge w1 s3)"

section \<open>Fetch client\<close>

text \<open>
  An error as the program catches it. Of an error the program reads the message, and in
  \<^verbatim>\<open>fetchFeed\<close> the name. \<open>Error m\<close> is an error with the message \<open>m\<close>: a
  \<^verbatim>\<open>new Error(m)\<close> of the program, or what the environment rejects a promise with.
  \<open>TypeError\<close> is the error the engine throws when a property of \<^verbatim>\<open>undefined\<close> or
  \<^verbatim>\<open>null\<close> is read or a value that is not a function is called, \<open>AbortError\<close> the one an
  aborted \<^verbatim>\<open>fetch\<close> throws; their messages are the engine's own, not empty and not fixed by
  the program, which passes them on unread.
\<close>

datatype error = TypeError | AbortError | Error string

text \<open>
  \<^verbatim>\<open>Array.prototype.map\<close> with a callback that may throw: the first throw ends the call.
\<close>

fun map_throwing :: "('a \<Rightarrow> error + 'b) \<Rightarrow> 'a list \<Rightarrow> error + 'b list" where
  "map_throwing f [] = Inr []"
| "map_throwing f (x # xs) =
     (case f x of
        Inl e \<Rightarrow> Inl e
      | Inr y \<Rightarrow> (case map_throwing f xs of Inl e \<Rightarrow> Inl e | Inr ys \<Rightarrow> Inr (y # ys)))"

text \<open>
  What a property holds on which the program, if the value is truthy, calls a method of
  strings or of arrays: nothing or a falsy value of another type (\<open>Missing\<close>), a truthy value
  that has no such method (\<open>Other\<close>: the call throws a \<^verbatim>\<open>TypeError\<close>), or a string or an
  array (\<open>Value\<close>).
\<close>

datatype 'a js_value = Missing | Other | Value 'a

text \<open>
  The parts of a listing entry (\<^verbatim>\<open>child.data\<close>) that \<^verbatim>\<open>stripPostData\<close> reads, as the parsed
  response holds them. The fields it only copies have the types the API gives them. The media
  fields it reads through, so their shapes are part of the entry: a property that may be
  absent is an option, an array may hold \<^verbatim>\<open>null\<close> (\<open>None\<close>) among its elements, and a property
  the program calls a method on is a \<open>js_value\<close>.

  A \<open>resolution\<close> is one image reference, \<^verbatim>\<open>{x, u}\<close> in \<^verbatim>\<open>media_metadata\<close> and
  \<^verbatim>\<open>{width, url}\<close> in \<^verbatim>\<open>preview\<close>; its width is a number or absent. \<open>gallery_items\<close> is
  \<^verbatim>\<open>gallery_data.items\<close>, \<open>None\<close> when that is not an array; an item is
  the property key its \<^verbatim>\<open>media_id\<close> stands for. \<open>media_metadata\<close> maps the keys to what it
  holds under them, \<open>preview_images\<close> is \<^verbatim>\<open>preview?.images\<close> up to its first falsy element
  and \<open>media_reddit_video\<close> is \<^verbatim>\<open>media?.reddit_video\<close>, each \<open>None\<close> when it is absent or
  falsy.
\<close>

record resolution =
  res_width :: "int option"
  res_url :: "string js_value"

record media_item =
  media_p :: "resolution option list js_value"
  media_s :: "resolution option"

record gallery_listing =
  gallery_items :: "string option list option"

record preview_image =
  resolutions :: "resolution option list js_value"
  source :: "resolution option"

record reddit_video =
  fallback_url :: "string js_value"
  dash_url :: "string option"

record raw_post =
  raw_id :: "string option"
  raw_title :: string
  raw_author :: string
  raw_subreddit :: string
  raw_permalink :: string
  raw_created_utc :: int
  raw_ups :: int
  raw_num_comments :: int
  raw_selftext :: "string option"
  raw_url :: "string option"
  raw_is_video :: bool
  gallery_data :: "gallery_listing option"
  media_metadata :: "(string \<rightharpoonup> media_item) option"
  preview_images :: "preview_image list option"
  media_reddit_video :: "reddit_video option"

text \<open>\<^verbatim>\<open>s.replace(/&amp;/g, '&')\<close>\<close>

fun fix_amp :: "string \<Rightarrow> string" where
  "fix_amp [] = []"
| "fix_amp (c # cs) =
     (if take 5 (c # cs) = ''&amp;'' then CHR ''&'' # fix_amp (drop 4 cs) else c # fix_amp cs)"

text \<open>
  \<^verbatim>\<open>s.replace(/DASH_\d+\.mp4/, 'DASH_AUDIO.mp4')\<close>: the leftmost place where \<^verbatim>\<open>DASH_\<close>, at
  least one digit and \<^verbatim>\<open>.mp4\<close> follow each other is replaced, once.
\<close>

definition is_digit :: "char \<Rightarrow> bool" where
  "is_digit c = (48 \<le> (of_char c :: nat) \<and> (of_char c :: nat) \<le> 57)"

definition match_dash :: "string \<Rightarrow> string option" where
  "match_dash s =
     (if take 5 s = ''DASH_'' then
        (let digits = takeWhile is_digit (drop 5 s); rest = dropWhile is_digit (drop 5 s)
         in if digits \<noteq> [] \<and> take 4 rest = ''.mp4'' then Some (drop 4 rest) else None)
      else None)"

fun replace_dash :: "string \<Rightarrow> string" where
  "replace_dash [] = []"
| "replace_dash (c # cs) =
     (case match_dash (c # cs) of
        Some rest \<Rightarrow> ''DASH_AUDIO.mp4'' @ rest
      | None \<Rightarrow> c # replace_dash cs)"

text \<open>A string that is defined and not empty (what JavaScript takes for true).\<close>

definition truthy :: "string option \<Rightarrow> bool" where
  "truthy v = (case v of None \<Rightarrow> False | Some s \<Rightarrow> s \<noteq> [])"

text \<open>
  \<^verbatim>\<open>r.x >= CONFIG.IMAGE_MIN_WIDTH && r.x <= CONFIG.IMAGE_MAX_WIDTH\<close>; a comparison with
  \<^verbatim>\<open>undefined\<close> is false.
\<close>

definition in_band :: "resolution \<Rightarrow> bool" where
  "in_band r =
     (case res_width r of
        None \<Rightarrow> False
      | Some x \<Rightarrow> x \<ge> IMAGE_MIN_WIDTH \<and> x \<le> IMAGE_MAX_WIDTH)"

text \<open>
  \<^verbatim>\<open>resolutions.find(r => ...)\<close>: the first element in the band, \<^verbatim>\<open>undefined\<close> when there
  is none; reading the width of a \<^verbatim>\<open>null\<close> element on the way throws.
\<close>

fun find_in_band :: "resolution option list \<Rightarrow> error + resolution option" where
  "find_in_band [] = Inr None"
| "find_in_band (None # rs) = Inl TypeError"
| "find_in_band (Some r # rs) = (if in_band r then Inr (Some r) else find_in_band rs)"

text \<open>\<^verbatim>\<open>xs[xs.length - 1]\<close>, \<^verbatim>\<open>undefined\<close> on the empty array.\<close>

definition last_opt :: "'a list \<Rightarrow> 'a option" where
  "last_opt xs = (if xs = [] then None else Some (last xs))"

text \<open>
  \<^verbatim>\<open>resolutions.find(...) || resolutions[resolutions.length - 1]\<close>: the last element stands
  in when nothing is in the band; \<^verbatim>\<open>null\<close> there is as good as nothing.
\<close>

definition medium_resolution :: "resolution option list \<Rightarrow> error + resolution option" where
  "medium_resolution rs =
     (case find_in_band rs of
        Inl e \<Rightarrow> Inl e
      | Inr (Some r) \<Rightarrow> Inr (Some r)
      | Inr None \<Rightarrow> Inr (case last_opt rs of Some (Some r) \<Rightarrow> Some r | _ \<Rightarrow> None))"

text \<open>
  \<^verbatim>\<open>if (r && r.u) return r.u.replace(/&amp;/g, '&')\<close>: the URL when there is one, nothing
  when the property is falsy; on a truthy value that is no string the call of
  \<^verbatim>\<open>replace\<close> throws.
\<close>

definition usable_url :: "resolution option \<Rightarrow> error + string option" where
  "usable_url r =
     (case r of
        None \<Rightarrow> Inr None
      | Some res \<Rightarrow>
          (case res_url res of
             Missing \<Rightarrow> Inr None
           | Other \<Rightarrow> Inl TypeError
           | Value u \<Rightarrow> if u = [] then Inr None else Inr (Some (fix_amp u))))"

text \<open>
  The callback of \<^verbatim>\<open>post.gallery_data.items.map\<close>. Reading \<^verbatim>\<open>media_id\<close> of a \<^verbatim>\<open>null\<close>
  item throws; so does \<^verbatim>\<open>find\<close> on a truthy \<^verbatim>\<open>media.p\<close> that is no array. The result
  is the URL, or \<open>None\<close> for \<^verbatim>\<open>null\<close>.
\<close>

definition gallery_item_url :: "(string \<rightharpoonup> media_item) \<Rightarrow> string option \<Rightarrow> error + string option" where
  "gallery_item_url metadata item =
     (case item of
        None \<Rightarrow> Inl TypeError
      | Some media_id \<Rightarrow>
          (case metadata media_id of
             None \<Rightarrow> Inr None
           | Some media \<Rightarrow>
               (let preferred =
                      (case media_p media of
                         Missing \<Rightarrow> Inr None
                       | Other \<Rightarrow> Inl TypeError
                       | Value rs \<Rightarrow>
                           (case medium_resolution rs of
                              Inl e \<Rightarrow> Inl e
                            | Inr mediumRes \<Rightarrow> usable_url mediumRes))
                in case preferred of
                     Inl e \<Rightarrow> Inl e
                   | Inr (Some u) \<Rightarrow> Inr (Some u)
                   | Inr None \<Rightarrow> usable_url (media_s media))))"

text \<open>
  The gallery from \<^verbatim>\<open>gallery_data\<close> and \<^verbatim>\<open>media_metadata\<close>:
  \<^verbatim>\<open>post.gallery_data.items.map(...).filter(Boolean)\<close>. The call of \<^verbatim>\<open>map\<close> throws when
  \<^verbatim>\<open>items\<close> is no array; \<^verbatim>\<open>filter(Boolean)\<close> drops the \<^verbatim>\<open>null\<close> results.
\<close>

definition gallery_urls :: "gallery_listing \<Rightarrow> (string \<rightharpoonup> media_item) \<Rightarrow> error + string list" where
  "gallery_urls listing metadata =
     (case gallery_items listing of
        None \<Rightarrow> Inl TypeError
      | Some items \<Rightarrow>
          (case map_throwing (gallery_item_url metadata) items of
             Inl e \<Rightarrow> Inl e
           | Inr urls \<Rightarrow> Inr (map the (filter truthy urls))))"

text \<open>
  The URL taken from the first preview image: \<^verbatim>\<open>resolutions = preview.resolutions || []\<close>,
  \<^verbatim>\<open>mediumRes = resolutions.find(...) || resolutions[resolutions.length - 1] ||
  preview.source\<close>; the call of \<^verbatim>\<open>find\<close> throws when \<^verbatim>\<open>resolutions\<close> is truthy and no array.
\<close>

definition preview_url :: "preview_image \<Rightarrow> error + string option" where
  "preview_url preview =
     (case resolutions preview of
        Other \<Rightarrow> Inl TypeError
      | Missing \<Rightarrow> usable_url (source preview)
      | Value rs \<Rightarrow>
          (case medium_resolution rs of
             Inl e \<Rightarrow> Inl e
           | Inr (Some m) \<Rightarrow> usable_url (Some m)
           | Inr None \<Rightarrow> usable_url (source preview)))"

text \<open>
  The gallery of \<^verbatim>\<open>stripPostData\<close>: from \<^verbatim>\<open>gallery_data\<close> and \<^verbatim>\<open>media_metadata\<close> when both
  are there, else from the first preview image when there is one. \<open>None\<close> is a result without
  the property \<^verbatim>\<open>gallery\<close>.
\<close>

definition strip_gallery :: "raw_post \<Rightarrow> error + string list option" where
  "strip_gallery r =
     (case (gallery_data r, media_metadata r) of
        (Some listing, Some metadata) \<Rightarrow>
          (case gallery_urls listing metadata of
             Inl e \<Rightarrow> Inl e
           | Inr urls \<Rightarrow> Inr (Some urls))
      | _ \<Rightarrow>
          (case preview_images r of
             Some (preview # rest) \<Rightarrow>
               (case preview_url preview of
                  Inl e \<Rightarrow> Inl e
                | Inr (Some u) \<Rightarrow> Inr (Some [u])
                | Inr None \<Rightarrow> Inr None)
           | _ \<Rightarrow> Inr None))"

text \<open>
  The video of \<^verbatim>\<open>stripPostData\<close>: \<^verbatim>\<open>video_url = fallback_url || dash_url\<close>, and the audio
  URL from a truthy \<^verbatim>\<open>fallback_url\<close>, on which \<^verbatim>\<open>replace\<close> throws when it is no string.
\<close>

definition strip_video :: "raw_post \<Rightarrow> error + string option \<times> string option" where
  "strip_video r =
     (case (if raw_is_video r then media_reddit_video r else None) of
        None \<Rightarrow> Inr (None, None)
      | Some v \<Rightarrow>
          (case fallback_url v of
             Other \<Rightarrow> Inl TypeError
           | Value u \<Rightarrow> if u = [] then Inr (dash_url v, None) else Inr (Some u, Some (replace_dash u))
           | Missing \<Rightarrow> Inr (dash_url v, None)))"

text \<open>
  \<^verbatim>\<open>stripPostData\<close>: the copied fields, then the gallery, then the video. The result is the
  post, or the error thrown on the way.
\<close>

definition stripPostData :: "raw_post \<Rightarrow> error + post" where
  "stripPostData r =
     (case strip_gallery r of
        Inl e \<Rightarrow> Inl e
      | Inr g \<Rightarrow>
          (case strip_video r of
             Inl e \<Rightarrow> Inl e
           | Inr (video, audio) \<Rightarrow>
               Inr \<lparr>post_id = raw_id r,
                    title = raw_title r,
                    author = raw_author r,
                    subreddit = raw_subreddit r,
                    permalink = raw_permalink r,
                    created_utc = raw_created_utc r,
                    ups = raw_ups r,
                    num_comments = raw_num_comments r,
                    selftext = (case raw_selftext r of None \<Rightarrow> [] | Some t \<Rightarrow> t),
                    url = (case raw_url r of None \<Rightarrow> [] | Some u \<Rightarrow> u),
                    is_video = raw_is_video r,
                    gallery = g,
                    video_url = video,
                    audio_url = audio\<rparr>))"

text \<open>
  What a call of \<^verbatim>\<open>fetch\<close> comes to: it is aborted, or the promise is rejected otherwise (no
  network, with the browser's message), or a response arrives. Of the response the program
  reads the status, the two rate-limit headers (here already through \<^verbatim>\<open>parseInt\<close>; \<open>None\<close>
  when the header is absent) and the body. \<^verbatim>\<open>response.json()\<close> throws (\<open>BodyError\<close>, with the
  message), or yields a value without an array at \<^verbatim>\<open>data.children\<close> (\<open>NoListing\<close>), or
  yields the listing's children; a child may be \<^verbatim>\<open>null\<close> or lack its \<^verbatim>\<open>data\<close> (\<open>None\<close>).
\<close>

datatype listing_body = BodyError string | NoListing | Listing "raw_post option list"

record response =
  status_code :: nat
  hdr_remaining :: "int option"
  hdr_reset :: "int option"
  body :: listing_body

datatype fetch_outcome = Aborted | Rejected string | Responded response

text \<open>
  The network, as the program meets it: what the \<open>n\<close>-th call of \<^verbatim>\<open>fetch\<close> answers for a URL
  and after how many milliseconds, and how many milliseconds late the \<open>n\<close>-th awaited timer
  fires (a timer never fires early).
\<close>

record network =
  respond :: "nat \<Rightarrow> string \<Rightarrow> fetch_outcome"
  latency :: "nat \<Rightarrow> nat"
  lateness :: "nat \<Rightarrow> nat"

text \<open>Decimal digits of a number, as a template literal prints it.\<close>

fun show_nat :: "nat \<Rightarrow> string" where
  "show_nat n =
     (if n < 10 then [''0123456789'' ! n]
      else show_nat (n div 10) @ [''0123456789'' ! (n mod 10)])"

definition show_int :: "int \<Rightarrow> string" where
  "show_int i = (if i < 0 then CHR ''-'' # show_nat (nat (- i)) else show_nat (nat i))"

text \<open>
  The callback \<^verbatim>\<open>child => stripPostData(child.data)\<close>: on a child that is \<^verbatim>\<open>null\<close> or has
  no \<^verbatim>\<open>data\<close>, reading a property of nothing throws.
\<close>

definition strip_child :: "raw_post option \<Rightarrow> error + post" where
  "strip_child child = (case child of None \<Rightarrow> Inl TypeError | Some r \<Rightarrow> stripPostData r)"

text \<open>
  \<^verbatim>\<open>const data = await response.json();
  const posts = data.data.children.map(child => stripPostData(child.data))\<close>: any throw fails
  the whole parse.
\<close>

definition parse_posts :: "listing_body \<Rightarrow> error + post list" where
  "parse_posts b =
     (case b of
        BodyError msg \<Rightarrow> Inl (Error msg)
      | NoListing \<Rightarrow> Inl TypeError
      | Listing children \<Rightarrow> map_throwing strip_child children)"

text \<open>The status checks and the parse that follow a response.\<close>

definition response_posts :: "response \<Rightarrow> error + post list" where
  "response_posts r =
     (if status_code r = 429 then Inl (Error ''Rate limited'')
      else if \<not> (200 \<le> status_code r \<and> status_code r \<le> 299)
      then Inl (Error (''HTTP '' @ show_nat (status_code r)))
      else parse_posts (body r))"

section \<open>Rate limiter\<close>

text \<open>\<^verbatim>\<open>await new Promise(resolve => setTimeout(resolve, ms))\<close>\<close>

definition sleep :: "network \<Rightarrow> int \<Rightarrow> world \<Rightarrow> world" where
  "sleep net ms w =
     w\<lparr>clock := clock w + ms + int (lateness net (timers w)), timers := Suc (timers w)\<rparr>"

text \<open>The reset at the head of the loop of \<^verbatim>\<open>waitForRateLimit\<close>.\<close>

definition reset_if_expired :: "int \<Rightarrow> rate_limit_state \<Rightarrow> rate_limit_state" where
  "reset_if_expired now r =
     (if now \<ge> resetTime r
      then r\<lparr>remainingRequests := REQUESTS_PER_MINUTE,
             resetTime := now + RATE_LIMIT_RESET_INTERVAL,
             requestCount := 0\<rparr>
      else r)"

function waitForRateLimit :: "network \<Rightarrow> world \<Rightarrow> app_state \<Rightarrow> world \<times> app_state" where
  "waitForRateLimit net w s =
     (let now = clock w;
          r = reset_if_expired now (rateLimitState s);
          s1 = s\<lparr>rateLimitState := r\<rparr>
      in if remainingRequests r > 0 then
           (let timeSinceLastRequest = now - lastRequestTime r
            in if timeSinceLastRequest \<ge> REQUEST_INTERVAL then (w, s1)
               else (sleep net (REQUEST_INTERVAL - timeSinceLastRequest) w, s1))
         else
           (let waitTime = max 0 (resetTime r - now)
            in waitForRateLimit net (sleep net (waitTime + 100) w) s1))"
  by pat_completeness auto
termination
proof (relation "measure (\<lambda>(net, w, s). if clock w \<ge> resetTime (rateLimitState s) then 0 else 1)")
  show "wf (measure (\<lambda>(net, w, s). if clock w \<ge> resetTime (rateLimitState s) then 0 else 1))"
    by simp
next
  fix net :: network and w :: world and s :: app_state and now r s1 waitTime
  assume a: "now = clock w" "r = reset_if_expired now (rateLimitState s)"
    "s1 = s\<lparr>rateLimitState := r\<rparr>" "\<not> 0 < remainingRequests r"
    "waitTime = max 0 (resetTime r - now)"
  have "\<not> clock w \<ge> resetTime (rateLimitState s)"
    using a by (auto simp: reset_if_expired_def REQUESTS_PER_MINUTE_def split: if_splits)
  moreover from this have "r = rateLimitState s" using a by (simp add: reset_if_expired_def)
  ultimately show "((net, sleep net (waitTime + 100) w, s1), (net, w, s))
        \<in> measure (\<lambda>(net, w, s). if clock w \<ge> resetTime (rateLimitState s) then 0 else 1)"
    using a by (simp add: sleep_def)
qed

declare waitForRateLimit.simps [simp del]

text \<open>
  The reservation that follows a response:
  \<^verbatim>\<open>lastRequestTime = Date.now(); remainingRequests = Math.max(0, remainingRequests - 1);
  requestCount++\<close>.
\<close>

definition reserve_request :: "world \<Rightarrow> app_state \<Rightarrow> app_state" where
  "reserve_request w s =
     s\<lparr>rateLimitState := (rateLimitState s)
          \<lparr>lastRequestTime := clock w,
           remainingRequests := max 0 (remainingRequests (rateLimitState s) - 1),
           requestCount := Suc (requestCount (rateLimitState s))\<rparr>\<rparr>"

text \<open>\<^verbatim>\<open>updateRateLimitFromHeaders\<close>\<close>

definition updateRateLimitFromHeaders :: "response \<Rightarrow> app_state \<Rightarrow> app_state" where
  "updateRateLimitFromHeaders resp s =
     (let r1 = (case hdr_remaining resp of
                  None \<Rightarrow> rateLimitState s
                | Some n \<Rightarrow> (rateLimitState s)\<lparr>remainingRequests := n\<rparr>);
          r2 = (case hdr_reset resp of
                  None \<Rightarrow> r1
                | Some t \<Rightarrow> r1\<lparr>resetTime := t * 1000\<rparr>)
      in s\<lparr>rateLimitState := r2\<rparr>)"

section \<open>Fetch with retry\<close>

definition fetch_url :: "string \<Rightarrow> string option \<Rightarrow> string" where
  "fetch_url feedType sub =
     ''https://www.reddit.com/r/''
     @ (if feedType = ''popular'' then ''popular''
        else (case sub of None \<Rightarrow> ''null'' | Some name \<Rightarrow> name))
     @ ''.json?limit='' @ show_nat POSTS_LIMIT @ ''&raw_json=1''"

text \<open>
  \<^verbatim>\<open>await fetch(url, { signal })\<close> under the abort timer of \<^verbatim>\<open>REQUEST_TIMEOUT\<close> milliseconds:
  an answer that would take that long or longer is cut off by the abort.
\<close>

definition do_fetch :: "network \<Rightarrow> string \<Rightarrow> world \<Rightarrow> fetch_outcome \<times> world" where
  "do_fetch net u w =
     (let n = fetches w; took = int (latency net n)
      in if took \<ge> REQUEST_TIMEOUT
         then (Aborted, w\<lparr>clock := clock w + REQUEST_TIMEOUT, fetches := Suc n\<rparr>)
         else (respond net n u, w\<lparr>clock := clock w + took, fetches := Suc n\<rparr>))"

text \<open>
  The body of the \<^verbatim>\<open>try\<close> in \<^verbatim>\<open>fetchFeedWithRetry\<close>: \<open>Inl\<close> is the error thrown,
  \<open>Inr\<close> the posts returned. The reservation and the header update run only when a
  response has arrived.
\<close>

definition fetch_once :: "network \<Rightarrow> string \<Rightarrow> world \<Rightarrow> app_state \<Rightarrow> (error + post list) \<times> world \<times> app_state" where
  "fetch_once net u w s =
     (case waitForRateLimit net w s of
        (w1, s1) \<Rightarrow>
          (case do_fetch net u w1 of
             (Aborted, w2) \<Rightarrow> (Inl AbortError, w2, s1)
           | (Rejected msg, w2) \<Rightarrow> (Inl (Error msg), w2, s1)
           | (Responded resp, w2) \<Rightarrow>
               (response_posts resp, w2, updateRateLimitFromHeaders resp (reserve_request w2 s1))))"

text \<open>
  \<^verbatim>\<open>lastError?.message || 'Unknown error'\<close>: what \<^verbatim>\<open>fetchFeedWithRetry\<close> reports when the
  attempts are used up. The result carries the error for its message; where there is no error
  or its message is empty, the message is \<^verbatim>\<open>'Unknown error'\<close>.
\<close>

definition reported :: "error option \<Rightarrow> error" where
  "reported lastError =
     (case lastError of
        None \<Rightarrow> Error ''Unknown error''
      | Some (Error m) \<Rightarrow> if m = [] then Error ''Unknown error'' else Error m
      | Some e \<Rightarrow> e)"

text \<open>
  The loop \<^verbatim>\<open>for (attempt = 0; attempt <= maxRetries; attempt++)\<close> from the given attempt on,
  with the last error.
\<close>

function fetch_attempts :: "network \<Rightarrow> string \<Rightarrow> int \<Rightarrow> int \<Rightarrow> error option \<Rightarrow> world \<Rightarrow> app_state
    \<Rightarrow> (error + post list) \<times> world \<times> app_state" where
  "fetch_attempts net u maxRetries attempt lastError w s =
     (if attempt \<le> maxRetries then
        (case fetch_once net u w s of
           (Inr ps, w1, s1) \<Rightarrow> (Inr ps, w1, s1)
         | (Inl msg, w1, s1) \<Rightarrow>
             fetch_attempts net u maxRetries (attempt + 1) (Some msg)
               (if attempt < maxRetries
                then sleep net (RETRY_DELAY_MS * 2 ^ nat attempt) w1 else w1)
               s1)
      else (Inl (reported lastError), w, s))"
  by pat_completeness auto
termination
  by (relation "measure (\<lambda>(net, u, maxRetries, attempt, lastError, w, s). nat (maxRetries + 1 - attempt))")
     auto

declare fetch_attempts.simps [simp del]

text \<open>
  \<^verbatim>\<open>fetchFeed\<close>, the single attempt: its abort timer starts before the wait for the rate
  limit, so the request has what the wait leaves of \<^verbatim>\<open>REQUEST_TIMEOUT\<close>; an error named
  \<^verbatim>\<open>AbortError\<close> is reported as \<^verbatim>\<open>'Request timeout'\<close>, any other error by its message.
\<close>

definition fetchFeed :: "network \<Rightarrow> string \<Rightarrow> string option \<Rightarrow> world \<Rightarrow> app_state
    \<Rightarrow> (error + post list) \<times> world \<times> app_state" where
  "fetchFeed net feedType sub w s =
     (let deadline = clock w + REQUEST_TIMEOUT
      in case waitForRateLimit net w s of
           (w1, s1) \<Rightarrow>
             (let n = fetches w1; took = int (latency net n);
                  w2 = w1\<lparr>clock := clock w1 + took, fetches := Suc n\<rparr>
              in if took \<ge> deadline - clock w1
                 then (Inl (Error ''Request timeout''),
                       w1\<lparr>clock := max (clock w1) deadline, fetches := Suc n\<rparr>, s1)
                 else (case respond net n (fetch_url feedType sub) of
                         Aborted \<Rightarrow> (Inl (Error ''Request timeout''), w2, s1)
                       | Rejected msg \<Rightarrow> (Inl (Error msg), w2, s1)
                       | Responded resp \<Rightarrow>
                           (response_posts resp, w2,
                            updateRateLimitFromHeaders resp (reserve_request w2 s1)))))"

definition fetchFeedWithRetry :: "network \<Rightarrow> string \<Rightarrow> string option \<Rightarrow> int \<Rightarrow> world \<Rightarrow> app_state
    \<Rightarrow> (error + post list) \<times> world \<times> app_state" where
  "fetchFeedWithRetry net feedType sub retryCount w s =
     fetch_attempts net (fetch_url feedType sub) (min 3 (int MAX_RETRIES - retryCount)) 0 None w s"

section \<open>Job queue and scheduler\<close>

text \<open>A job that is neither \<^verbatim>\<open>completed\<close> nor \<^verbatim>\<open>failed_max_retries\<close>.\<close>

definition non_terminal :: "job \<Rightarrow> bool" where
  "non_terminal j = (status j \<noteq> Completed \<and> status j \<noteq> FailedMaxRetries)"

text \<open>
  \<^verbatim>\<open>queueSyncJob\<close>; \<open>rnd\<close> is the text \<^verbatim>\<open>Math.random().toString(36).substr(2, 9)\<close> yields.
  The result is the job, or \<open>None\<close> for \<^verbatim>\<open>null\<close>.
\<close>

definition queueSyncJob :: "string \<Rightarrow> string option \<Rightarrow> string \<Rightarrow> world \<Rightarrow> app_state \<Rightarrow> job option \<times> app_state" where
  "queueSyncJob type sub rnd w s =
     (let isDuplicate =
            list_ex (\<lambda>j. job_type j = type \<and> job_subreddit j = sub
                          \<and> status j \<noteq> Completed \<and> status j \<noteq> FailedMaxRetries)
                    (syncQueue s)
      in if isDuplicate then (None, s)
         else
           (let j = \<lparr>job_id = type @ ''-'' @ (if falsy sub then ''popular'' else the sub)
                               @ ''-'' @ show_int (clock w) @ ''-'' @ rnd,
                     job_type = type,
                     job_subreddit = sub,
                     status = Pending,
                     retries = 0,
                     timestamp = clock w,
                     startTime = None\<rparr>
            in (Some j, s\<lparr>syncQueue := syncQueue s @ [j]\<rparr>)))"

datatype job_result = Success | Failure error

text \<open>\<^verbatim>\<open>executeJob\<close>; the staging it starts runs before the scheduler goes on.\<close>

definition executeJob :: "network \<Rightarrow> job \<Rightarrow> world \<Rightarrow> app_state \<Rightarrow> job_result \<times> world \<times> app_state" where
  "executeJob net j w s =
     (if job_type j = ''fetch_subreddit'' then
        (case fetchFeedWithRetry net ''subreddit'' (job_subreddit j) (int (retries j) - 1) w s of
           (Inr ps, w1, s1) \<Rightarrow> (Success, w1, addPostsToPending ps FeedMy (job_subreddit j) s1)
         | (Inl msg, w1, s1) \<Rightarrow> (Failure msg, w1, s1))
      else if job_type j = ''fetch_popular'' then
        (case fetchFeedWithRetry net ''popular'' None (int (retries j) - 1) w s of
           (Inr ps, w1, s1) \<Rightarrow> (Success, w1, addPostsToPending ps FeedPopular None s1)
         | (Inl msg, w1, s1) \<Rightarrow> (Failure msg, w1, s1))
      else (Failure (Error ''Unknown job type''), w, s))"

text \<open>
  What \<^verbatim>\<open>processSyncQueue\<close> writes to the console about a job, by the job's id: that it
  exceeded the retries, that it is processed, that it completed, that it failed (with the error).
\<close>

datatype sched_event =
    ExceededMaxRetries string
  | ProcessingJob string
  | JobCompleted string
  | JobFailed string error

text \<open>\<^verbatim>\<open>j.status === 'pending' || j.status === 'failed'\<close>\<close>

definition runnable :: "job \<Rightarrow> bool" where
  "runnable j = (status j = Pending \<or> status j = Failed)"

text \<open>The index of the job \<^verbatim>\<open>state.syncQueue.find(...)\<close> returns.\<close>

fun first_runnable :: "job list \<Rightarrow> nat option" where
  "first_runnable [] = None"
| "first_runnable (j # js) =
     (if runnable j then Some 0 else map_option Suc (first_runnable js))"

text \<open>
  One turn of the loop of \<^verbatim>\<open>processSyncQueue\<close> on the job at index \<open>i\<close>. The job is an
  object of the queue, changed in place.
\<close>

definition sched_step :: "network \<Rightarrow> nat \<Rightarrow> world \<Rightarrow> app_state \<Rightarrow> world \<times> app_state \<times> sched_event list" where
  "sched_step net i w s =
     (let j = syncQueue s ! i
      in if retries j \<ge> MAX_RETRIES
         then (w, s\<lparr>syncQueue := (syncQueue s)[i := j\<lparr>status := FailedMaxRetries\<rparr>]\<rparr>,
               [ExceededMaxRetries (job_id j)])
         else
           (let j1 = j\<lparr>status := Processing, startTime := Some (clock w), retries := Suc (retries j)\<rparr>;
                s1 = s\<lparr>syncQueue := (syncQueue s)[i := j1]\<rparr>
            in case executeJob net j1 w s1 of
                 (Success, w2, s2) \<Rightarrow>
                   (w2, s2\<lparr>syncQueue := (syncQueue s2)[i := (syncQueue s2 ! i)\<lparr>status := Completed\<rparr>]\<rparr>,
                    [ProcessingJob (job_id j), JobCompleted (job_id j)])
               | (Failure msg, w2, s2) \<Rightarrow>
                   (w2, s2\<lparr>syncQueue := (syncQueue s2)[i := (syncQueue s2 ! i)\<lparr>status := Failed\<rparr>]\<rparr>,
                    [ProcessingJob (job_id j), JobFailed (job_id j) msg])))"

text \<open>
  The loop of \<^verbatim>\<open>processSyncQueue\<close> ends: a turn either retires a runnable job or uses up
  one of its retries, and the fetch changes nothing of the queue. The retries a queue has
  left are its weight.
\<close>

definition job_weight :: "job \<Rightarrow> nat" where
  "job_weight j = (if runnable j then Suc (MAX_RETRIES - retries j) else 0)"

definition queue_weight :: "job list \<Rightarrow> nat" where
  "queue_weight q = sum_list (map job_weight q)"

text \<open>\<open>s'\<close> is \<open>s\<close> but for the rate-limit state.\<close>

definition rate_only :: "app_state \<Rightarrow> app_state \<Rightarrow> bool" where
  "rate_only s s' = (s' = s\<lparr>rateLimitState := rateLimitState s'\<rparr>)"

lemma rate_only_refl: "rate_only s s" by (simp add: rate_only_def)

lemma rate_only_update: "rate_only s (s\<lparr>rateLimitState := r\<rparr>)" by (simp add: rate_only_def)

lemma rate_only_trans: "rate_only s s1 \<Longrightarrow> rate_only s1 s2 \<Longrightarrow> rate_only s s2"
  unfolding rate_only_def
  by (metis app_state.update_convs(9) app_state.surjective app_state.select_convs(9))

lemma rate_only_queue: "rate_only s s' \<Longrightarrow> syncQueue s' = syncQueue s"
  unfolding rate_only_def by (metis app_state.select_convs(10) app_state.surjective app_state.update_convs(9))

lemma waitForRateLimit_rate_only: "rate_only s (snd (waitForRateLimit net w s))"
proof (induction net w s rule: waitForRateLimit.induct)
  case (1 net w s)
  let ?r = "reset_if_expired (clock w) (rateLimitState s)"
  show ?case
  proof (cases "remainingRequests ?r > 0")
    case True
    then show ?thesis
      by (subst waitForRateLimit.simps) (auto simp: Let_def rate_only_update)
  next
    case False
    from 1[OF refl refl refl False refl]
    have "rate_only (s\<lparr>rateLimitState := ?r\<rparr>)
        (snd (waitForRateLimit net (sleep net (max 0 (resetTime ?r - clock w) + 100) w) (s\<lparr>rateLimitState := ?r\<rparr>)))" .
    with rate_only_update have "rate_only s
        (snd (waitForRateLimit net (sleep net (max 0 (resetTime ?r - clock w) + 100) w) (s\<lparr>rateLimitState := ?r\<rparr>)))"
      by (rule rate_only_trans)
    with False show ?thesis
      by (subst waitForRateLimit.simps) (simp add: Let_def)
  qed
qed

lemma fetch_once_rate_only: "rate_only s (snd (snd (fetch_once net u w s)))"
proof -
  have a: "rate_only s (snd (waitForRateLimit net w s))" by (rule waitForRateLimit_rate_only)
  have b: "rate_only s1 (updateRateLimitFromHeaders resp (reserve_request w2 s1))" for s1 resp w2
    by (simp add: rate_only_def updateRateLimitFromHeaders_def reserve_request_def Let_def)
  show ?thesis
    using a rate_only_trans[OF a b]
    by (auto simp: fetch_once_def split: prod.splits fetch_outcome.splits)
qed

lemma fetch_attempts_rate_only: "rate_only s (snd (snd (fetch_attempts net u m a e w s)))"
proof (induction net u m a e w s rule: fetch_attempts.induct)
  case (1 net u maxRetries attempt lastError w s)
  show ?case
  proof (cases "attempt \<le> maxRetries")
    case False
    then show ?thesis by (subst fetch_attempts.simps) (simp add: rate_only_refl)
  next
    case True
    obtain res w1 s1 where f: "fetch_once net u w s = (res, w1, s1)" by (metis prod_cases3)
    have r1: "rate_only s s1" using fetch_once_rate_only[of s net u w] f by simp
    show ?thesis
    proof (cases res)
      case (Inr ps)
      with True f r1 show ?thesis by (subst fetch_attempts.simps) simp
    next
      case (Inl msg)
      from 1[OF True f[symmetric] Inl refl]
      have "rate_only s1 (snd (snd (fetch_attempts net u maxRetries (attempt + 1) (Some msg)
               (if attempt < maxRetries then sleep net (RETRY_DELAY_MS * 2 ^ nat attempt) w1 else w1) s1)))"
        by simp
      with r1 have "rate_only s (snd (snd (fetch_attempts net u maxRetries (attempt + 1) (Some msg)
               (if attempt < maxRetries then sleep net (RETRY_DELAY_MS * 2 ^ nat attempt) w1 else w1) s1)))"
        by (rule rate_only_trans)
      with True f Inl show ?thesis by (subst fetch_attempts.simps) simp
    qed
  qed
qed

lemma addPostsToPending_queue: "syncQueue (addPostsToPending ps ft sub s) = syncQueue s"
  by (cases ft) (simp_all add: addPostsToPending_def Let_def set_feed_def)

lemma executeJob_queue: "syncQueue (snd (snd (executeJob net j w s))) = syncQueue s"
proof -
  have q: "syncQueue s1 = syncQueue s" if "fetchFeedWithRetry net ft sub rc w s = (res, w1, s1)"
    for ft sub rc res w1 s1
  proof -
    have "rate_only s (snd (snd (fetch_attempts net (fetch_url ft sub) (min 3 (int MAX_RETRIES - rc)) 0 None w s)))"
      by (rule fetch_attempts_rate_only)
    then have "syncQueue (snd (snd (fetch_attempts net (fetch_url ft sub) (min 3 (int MAX_RETRIES - rc)) 0 None w s)))
               = syncQueue s" by (rule rate_only_queue)
    with that show ?thesis by (simp add: fetchFeedWithRetry_def)
  qed
  show ?thesis
  proof (cases "job_type j = ''fetch_subreddit''")
    case True
    obtain res w1 s1 where f: "fetchFeedWithRetry net ''subreddit'' (job_subreddit j) (int (retries j) - 1) w s
        = (res, w1, s1)" by (metis prod_cases3)
    from q[OF f] f True show ?thesis
      by (cases res) (simp_all add: executeJob_def addPostsToPending_queue)
  next
    case ns: False
    show ?thesis
    proof (cases "job_type j = ''fetch_popular''")
      case True
      obtain res w1 s1 where f: "fetchFeedWithRetry net ''popular'' None (int (retries j) - 1) w s
          = (res, w1, s1)" by (metis prod_cases3)
      from q[OF f] f True ns show ?thesis
        by (cases res) (simp_all add: executeJob_def addPostsToPending_queue)
    next
      case False
      with ns show ?thesis by (simp add: executeJob_def)
    qed
  qed
qed

lemma first_runnable_Some:
  "first_runnable q = Some i \<Longrightarrow> i < length q \<and> runnable (q ! i) \<and> (\<forall>k<i. \<not> runnable (q ! k))"
proof (induction q arbitrary: i)
  case Nil
  then show ?case by simp
next
  case (Cons j js)
  show ?case
  proof (cases "runnable j")
    case True
    with Cons.prems show ?thesis by simp
  next
    case False
    with Cons.prems obtain i' where i': "first_runnable js = Some i'" "i = Suc i'" by auto
    from Cons.IH[OF i'(1)] False i'(2) show ?thesis by (auto simp: nth_Cons split: nat.splits)
  qed
qed

lemma first_runnable_None: "first_runnable q = None \<longleftrightarrow> (\<forall>j \<in> set q. \<not> runnable j)"
  by (induction q) auto

lemma queue_weight_update:
  "i < length q \<Longrightarrow> queue_weight (q[i := j]) + job_weight (q ! i) = queue_weight q + job_weight j"
  unfolding queue_weight_def
proof (induction q arbitrary: i)
  case Nil
  then show ?case by simp
next
  case (Cons a q)
  then show ?case by (cases i) auto
qed

lemma sched_step_exceeded:
  assumes "retries (syncQueue s ! i) \<ge> MAX_RETRIES"
  shows "sched_step net i w s
         = (w, s\<lparr>syncQueue := (syncQueue s)[i := (syncQueue s ! i)\<lparr>status := FailedMaxRetries\<rparr>]\<rparr>,
            [ExceededMaxRetries (job_id (syncQueue s ! i))])"
  using assms by (simp add: sched_step_def Let_def)

lemma sched_step_run:
  assumes "\<not> retries (syncQueue s ! i) \<ge> MAX_RETRIES" "i < length (syncQueue s)"
    and "j1 = (syncQueue s ! i)\<lparr>status := Processing, startTime := Some (clock w),
                                retries := Suc (retries (syncQueue s ! i))\<rparr>"
    and "executeJob net j1 w (s\<lparr>syncQueue := (syncQueue s)[i := j1]\<rparr>) = (res, w2, s2)"
  shows "sched_step net i w s
         = (w2, s2\<lparr>syncQueue := (syncQueue s)[i := j1\<lparr>status := (case res of Success \<Rightarrow> Completed | Failure m \<Rightarrow> Failed)\<rparr>]\<rparr>,
            [ProcessingJob (job_id (syncQueue s ! i)),
             (case res of Success \<Rightarrow> JobCompleted (job_id (syncQueue s ! i))
                        | Failure m \<Rightarrow> JobFailed (job_id (syncQueue s ! i)) m)])"
proof -
  have q2: "syncQueue s2 = (syncQueue s)[i := j1]"
    using executeJob_queue[of net j1 w "s\<lparr>syncQueue := (syncQueue s)[i := j1]\<rparr>"] assms(4) by simp
  show ?thesis
    using assms(1,2) assms(4)[unfolded assms(3)] q2[unfolded assms(3)]
    by (cases res) (simp_all add: sched_step_def Let_def assms(3))
qed

lemma sched_step_queue:
  assumes "i < length (syncQueue s)" and run: "runnable (syncQueue s ! i)"
  shows "\<exists>j'. syncQueue (fst (snd (sched_step net i w s))) = (syncQueue s)[i := j']
          \<and> job_weight j' < job_weight (syncQueue s ! i)"
proof (cases "retries (syncQueue s ! i) \<ge> MAX_RETRIES")
  case True
  have "job_weight ((syncQueue s ! i)\<lparr>status := FailedMaxRetries\<rparr>) = 0"
    by (simp add: job_weight_def runnable_def)
  then show ?thesis
    unfolding sched_step_exceeded[OF True] using run
    by (intro exI[of _ "(syncQueue s ! i)\<lparr>status := FailedMaxRetries\<rparr>"]) (simp add: job_weight_def)
next
  case False
  define j1 where "j1 = (syncQueue s ! i)\<lparr>status := Processing, startTime := Some (clock w),
                                retries := Suc (retries (syncQueue s ! i))\<rparr>"
  obtain res w2 s2 where e: "executeJob net j1 w (s\<lparr>syncQueue := (syncQueue s)[i := j1]\<rparr>) = (res, w2, s2)"
    by (metis prod_cases3)
  let ?j' = "j1\<lparr>status := (case res of Success \<Rightarrow> Completed | Failure m \<Rightarrow> Failed)\<rparr>"
  have "job_weight ?j' < job_weight (syncQueue s ! i)"
    using False run by (cases res) (auto simp: job_weight_def runnable_def j1_def)
  then show ?thesis
    unfolding sched_step_run[OF False assms(1) j1_def e]
    by (intro exI[of _ ?j']) simp
qed

lemma sched_step_decreases:
  assumes "first_runnable (syncQueue s) = Some i"
  shows "queue_weight (syncQueue (fst (snd (sched_step net i w s)))) < queue_weight (syncQueue s)"
proof -
  from first_runnable_Some[OF assms] have i: "i < length (syncQueue s)" "runnable (syncQueue s ! i)" by auto
  from sched_step_queue[OF i(1) i(2), of net w] obtain j' where
    j': "syncQueue (fst (snd (sched_step net i w s))) = (syncQueue s)[i := j']"
        "job_weight j' < job_weight (syncQueue s ! i)" by auto
  from queue_weight_update[OF i(1), of j'] j' show ?thesis by simp
qed

text \<open>
  The loop \<^verbatim>\<open>while (state.syncQueue.some(j => j.status === 'pending' || j.status === 'failed'))\<close>,
  with the console lines written so far.
\<close>

function run_queue :: "network \<Rightarrow> world \<Rightarrow> app_state \<Rightarrow> sched_event list \<Rightarrow> world \<times> app_state \<times> sched_event list" where
  "run_queue net w s trace =
     (case first_runnable (syncQueue s) of
        None \<Rightarrow> (w, s, trace)
      | Some i \<Rightarrow>
          (case sched_step net i w s of
             (w1, s1, events) \<Rightarrow> run_queue net w1 s1 (trace @ events)))"
  by pat_completeness auto
termination
proof (relation "measure (\<lambda>(net, w, s, trace). queue_weight (syncQueue s))")
  show "wf (measure (\<lambda>(net, w, s, trace). queue_weight (syncQueue s)))" by simp
next
  fix net :: network and w :: world and s :: app_state and trace :: "sched_event list"
    and i w1 y s1 and events :: "sched_event list"
  assume a: "first_runnable (syncQueue s) = Some i" "(w1, y) = sched_step net i w s" "(s1, events) = y"
  from a(2,3) have "fst (snd (sched_step net i w s)) = s1" by (metis fst_conv snd_conv)
  with sched_step_decreases[OF a(1), of net w]
  have "queue_weight (syncQueue s1) < queue_weight (syncQueue s)" by simp
  then show "((net, w1, s1, trace @ events), (net, w, s, trace))
      \<in> measure (\<lambda>(net, w, s, trace). queue_weight (syncQueue s))"
    by simp
qed

declare run_queue.simps [simp del]

text \<open>
  The block \<^verbatim>\<open>processSyncQueue\<close> runs for each of the two feeds after the pass: a feed with
  no applied post but staged posts is merged at once.
\<close>

definition auto_apply :: "feed_type \<Rightarrow> world \<Rightarrow> app_state \<Rightarrow> world \<times> app_state" where
  "auto_apply ft w s =
     (if length (posts (feed_of ft s)) = 0 \<and> length (pending_posts (pending (feed_of ft s))) > 0
      then (let s1 = set_feed ft (merge_pending (feed_of ft s)) s;
                s2 = (if ft = FeedPopular then rebuildPopularFiltered s1 else s1)
            in case saveState w s2 of (ok, w1, s3) \<Rightarrow> (w1, s3))
      else (w, s))"

text \<open>
  \<^verbatim>\<open>processSyncQueue\<close>: the guards, the loop, the pruning of completed and permanently failed
  jobs, the final save, the automatic apply. The result carries the console lines of the loop.

  The calls of \<^verbatim>\<open>debouncedSave()\<close> in \<^verbatim>\<open>waitForRateLimit\<close>, \<^verbatim>\<open>queueSyncJob\<close>,
  \<^verbatim>\<open>fetchFeedWithRetry\<close>, \<^verbatim>\<open>addPostsToPending\<close> and \<^verbatim>\<open>processSyncQueue\<close> only arm a timer of
  500 ms whose callback is \<^verbatim>\<open>saveState()\<close>. That timer is left out: the functions of this
  theory are the program's own steps, without the saves the timer may run while a pass
  awaits a fetch or a delay. Such a save writes to \<^verbatim>\<open>localStorage\<close> and, when the write is
  refused for quota, evicts applied posts; like every \<open>saveState\<close> it leaves the job queue,
  the rate-limit state and the staging sequences as they are (\<open>saveState_frame\<close> below).
\<close>

definition processSyncQueue :: "network \<Rightarrow> world \<Rightarrow> app_state \<Rightarrow> world \<times> app_state \<times> sched_event list" where
  "processSyncQueue net w s =
     (if isProcessingQueue s then (w, s, [])
      else if \<not> online w then (w, s, [])
      else
        (case run_queue net w (s\<lparr>isProcessingQueue := True\<rparr>) [] of
           (w1, s1, trace) \<Rightarrow>
             (let s2 = s1\<lparr>syncQueue := filter (\<lambda>j. status j \<noteq> Completed \<and> status j \<noteq> FailedMaxRetries)
                                               (syncQueue s1)\<rparr>;
                  s3 = s2\<lparr>isProcessingQueue := False\<rparr>
              in case saveState w1 s3 of
                   (ok, w2, s4) \<Rightarrow>
                     (case auto_apply FeedMy w2 s4 of
                        (w3, s5) \<Rightarrow>
                          (case auto_apply FeedPopular w3 s5 of
                             (w4, s6) \<Rightarrow> (w4, s6, trace))))))"

section \<open>Initial state and sample data\<close>

text \<open>The literal \<^verbatim>\<open>state\<close> of the program, created at time \<open>now\<close>.\<close>

definition empty_feed :: feed where
  "empty_feed = \<lparr>posts = [], pending = \<lparr>pending_posts = [], pending_count = 0\<rparr>,
                  lastFetch = Map.empty, currentPage = 1\<rparr>"

definition initial_state :: "int \<Rightarrow> app_state" where
  "initial_state now =
     \<lparr>my = empty_feed, popular = empty_feed, popular_filtered = [], starred = [],
      subreddits = [], blocked = [], blockedUsers = [], current = ''my'',
      rateLimitState = \<lparr>lastRequestTime = 0, remainingRequests = REQUESTS_PER_MINUTE,
                         resetTime = now + RATE_LIMIT_RESET_INTERVAL, requestCount = 0\<rparr>,
      syncQueue = [], isProcessingQueue = False, storageQuota = 5 * 1024 * 1024,
      updateAvailable = False\<rparr>"

text \<open>A post with the given id, subreddit and creation time, for concrete runs.\<close>

definition sample_post :: "string \<Rightarrow> string \<Rightarrow> int \<Rightarrow> post" where
  "sample_post i sub t =
     \<lparr>post_id = Some i, title = [], author = [], subreddit = sub, permalink = [],
      created_utc = t, ups = 0, num_comments = 0, selftext = [], url = [], is_video = False,
      gallery = None, video_url = None, audio_url = None\<rparr>"

text \<open>The staging sequence and the applied sequence of a feed.\<close>

definition staged :: "feed_type \<Rightarrow> app_state \<Rightarrow> post list" where
  "staged feedType s = pending_posts (pending (feed_of feedType s))"

definition applied :: "feed_type \<Rightarrow> app_state \<Rightarrow> post list" where
  "applied feedType s = posts (feed_of feedType s)"

text \<open>How often an id occurs in a sequence of posts.\<close>

definition occurrences :: "string option \<Rightarrow> post list \<Rightarrow> nat" where
  "occurrences i ps = length (filter (\<lambda>p. post_id p = i) ps)"

text \<open>
  An id stands for one item, and an item is of one subreddit: posts of the sequence that have
  the same id have the same subreddit, the names compared as the program compares them,
  without regard to case.
\<close>

definition one_subreddit_per_id :: "post list \<Rightarrow> bool" where
  "one_subreddit_per_id ps =
     (\<forall>p \<in> set ps. \<forall>q \<in> set ps.
        post_id p = post_id q \<longrightarrow> toLowerCase (subreddit p) = toLowerCase (subreddit q))"

text \<open>A my-feed that holds the post \<open>x1\<close> under subreddit \<open>b\<close>.\<close>

definition state_x1_in_b :: app_state where
  "state_x1_in_b = (initial_state 0)\<lparr>my := empty_feed\<lparr>posts := [sample_post ''x1'' ''b'' 100]\<rparr>\<rparr>"

text \<open>A my-feed with \<open>p1\<close> applied and \<open>p2\<close> staged, both of subreddit \<open>a\<close>.\<close>

definition state_p1_p2 :: app_state where
  "state_p1_p2 =
     (initial_state 0)\<lparr>my := empty_feed
        \<lparr>posts := [sample_post ''p1'' ''a'' 100],
         pending := \<lparr>pending_posts = [sample_post ''p2'' ''A'' 200], pending_count = 1\<rparr>\<rparr>\<rparr>"

section \<open>Notions the properties use\<close>

text \<open>The pinned posts of a sequence: those whose id is the id of a starred post.\<close>

definition pinned_posts :: "app_state \<Rightarrow> post list \<Rightarrow> post list" where
  "pinned_posts s ps = filter (\<lambda>p. post_id p \<in> bookmarkedIds s) ps"

text \<open>\<open>s'\<close> is \<open>s\<close> but for the applied posts of the my-feed and of the popular feed.\<close>

definition only_applied_changed :: "app_state \<Rightarrow> app_state \<Rightarrow> bool" where
  "only_applied_changed s s' =
     (s' = s\<lparr>my := (my s)\<lparr>posts := posts (my s')\<rparr>,
             popular := (popular s)\<lparr>posts := posts (popular s')\<rparr>\<rparr>)"

text \<open>
  \<open>s'\<close> comes from \<open>s\<close> by filtering the applied posts of the two feeds with predicates that
  keep every pinned post.
\<close>

definition evicted_from :: "app_state \<Rightarrow> app_state \<Rightarrow> bool" where
  "evicted_from s s' =
     (\<exists>f g. (\<forall>p. post_id p \<in> bookmarkedIds s \<longrightarrow> f p \<and> g p)
        \<and> s' = s\<lparr>my := (my s)\<lparr>posts := filter f (posts (my s))\<rparr>,
                  popular := (popular s)\<lparr>posts := filter g (posts (popular s))\<rparr>\<rparr>)"

text \<open>
  Storage measured at 95 of a quota of 100, the next write refused for quota and the one
  after it stored; the clock far beyond every sample post's maximum age.
\<close>

definition crowded_world :: world where
  "crowded_world = \<lparr>clock = 4000000000000, online = True, ls_size = 95,
                      writes = [QuotaExceededError, Stored 50], fetches = 0, timers = 0\<rparr>"

text \<open>
  A state whose my-feed holds a recent post, a starred old post and an old post, with another
  old post staged.
\<close>

definition crowded_state :: app_state where
  "crowded_state = (initial_state 0)
     \<lparr>my := empty_feed\<lparr>posts := [sample_post ''r1'' ''a'' 3999999000, sample_post ''k1'' ''a'' 100,
                                   sample_post ''o1'' ''a'' 50],
                        pending := \<lparr>pending_posts = [sample_post ''o2'' ''a'' 40], pending_count = 1\<rparr>\<rparr>,
      popular := empty_feed\<lparr>posts := [sample_post ''r1'' ''a'' 3999999000, sample_post ''k1'' ''a'' 100]\<rparr>,
      starred := [sample_post ''k1'' ''a'' 100],
      storageQuota := 100\<rparr>"





text \<open>Storage measured at 95 bytes; every write succeeds.\<close>

definition world_95 :: world where
  "world_95 = \<lparr>clock = 0, online = True, ls_size = 95, writes = [], fetches = 0, timers = 0\<rparr>"


text \<open>The clock far beyond every sample post's maximum age; every write succeeds.\<close>

definition late_world :: world where
  "late_world = \<lparr>clock = 4000000000000, online = True, ls_size = 10, writes = [],
                   fetches = 0, timers = 0\<rparr>"

text \<open>The clock before every sample post; storage at 95 of 100 and the next write refused for quota.\<close>

definition early_crowded_world :: world where
  "early_crowded_world = crowded_world\<lparr>clock := 0\<rparr>"

text \<open>\<open>crowded_state\<close> with nothing staged.\<close>

definition unstaged_state :: app_state where
  "unstaged_state =
     crowded_state\<lparr>my := (my crowded_state)\<lparr>pending := \<lparr>pending_posts = [], pending_count = 0\<rparr>\<rparr>\<rparr>"

text \<open>Sorted by \<^verbatim>\<open>created_utc\<close>, descending.\<close>

definition created_desc :: "post list \<Rightarrow> bool" where
  "created_desc ps = sorted_wrt (\<lambda>a b. created_utc a \<ge> created_utc b) ps"

text \<open>The merge of a feed's staged posts into its applied posts, as \<open>merge_pending\<close> computes it.\<close>

definition merged :: "feed_type \<Rightarrow> app_state \<Rightarrow> post list" where
  "merged ft s = sort_created_desc (removeDuplicates (staged ft s @ applied ft s))"

text \<open>The pair (kind, source key) of a job.\<close>

definition job_key :: "job \<Rightarrow> string \<times> string option" where
  "job_key j = (job_type j, job_subreddit j)"

text \<open>No two non-terminal jobs of the queue have the same pair.\<close>

definition unique_active :: "job list \<Rightarrow> bool" where
  "unique_active q = distinct (map job_key (filter non_terminal q))"

text \<open>The queue holds a non-terminal job of this kind and source key.\<close>

definition has_equivalent :: "string \<Rightarrow> string option \<Rightarrow> job list \<Rightarrow> bool" where
  "has_equivalent type sub q =
     (\<exists>j \<in> set q. non_terminal j \<and> job_type j = type \<and> job_subreddit j = sub)"

text \<open>The job \<open>queueSyncJob\<close> builds.\<close>

definition new_job :: "string \<Rightarrow> string option \<Rightarrow> string \<Rightarrow> world \<Rightarrow> job" where
  "new_job type sub rnd w =
     \<lparr>job_id = type @ ''-'' @ (if falsy sub then ''popular'' else the sub)
               @ ''-'' @ show_int (clock w) @ ''-'' @ rnd,
      job_type = type,
      job_subreddit = sub,
      status = Pending,
      retries = 0,
      timestamp = clock w,
      startTime = None\<rparr>"

text \<open>
  A sequence of calls of \<open>queueSyncJob\<close>, each with its kind, its source key, the random text
  and the world it runs in.
\<close>

fun enqueue_all :: "(string \<times> string option \<times> string \<times> world) list \<Rightarrow> app_state \<Rightarrow> app_state" where
  "enqueue_all [] s = s"
| "enqueue_all ((type, sub, rnd, w) # calls) s =
     enqueue_all calls (snd (queueSyncJob type sub rnd w s))"

text \<open>Three calls, the third for the kind and source key of the first.\<close>

definition three_calls :: "(string \<times> string option \<times> string \<times> world) list" where
  "three_calls =
     [(''fetch_subreddit'', Some ''a'', ''r1'', world_95),
      (''fetch_popular'', None, ''r2'', world_95),
      (''fetch_subreddit'', Some ''a'', ''r3'', world_95)]"

text \<open>A listing entry with the given id, and nothing but text.\<close>

definition raw_entry :: "string option \<Rightarrow> string \<Rightarrow> int \<Rightarrow> raw_post" where
  "raw_entry i sub t =
     \<lparr>raw_id = i, raw_title = ''t'', raw_author = ''u'', raw_subreddit = sub, raw_permalink = [],
      raw_created_utc = t, raw_ups = 1, raw_num_comments = 0, raw_selftext = None,
      raw_url = None, raw_is_video = False, gallery_data = None, media_metadata = None,
      preview_images = None, media_reddit_video = None\<rparr>"

text \<open>
  A listing entry whose \<^verbatim>\<open>gallery_data\<close> and \<^verbatim>\<open>media_metadata\<close> are both the empty object
  \<^verbatim>\<open>{}\<close>: there is no \<^verbatim>\<open>items\<close> array to map over.
\<close>

definition raw_entry_no_items :: "string option \<Rightarrow> raw_post" where
  "raw_entry_no_items i =
     (raw_entry i ''a'' 100)\<lparr>gallery_data := Some \<lparr>gallery_items = None\<rparr>,
                             media_metadata := Some Map.empty\<rparr>"

text \<open>The entry has its \<^verbatim>\<open>data\<close> and \<open>stripPostData\<close> returns a post for it.\<close>

definition normalizes :: "raw_post option \<Rightarrow> bool" where
  "normalizes child = (\<not> isl (strip_child child))"

text \<open>The ids of the posts a fetch returned, in order; \<open>None\<close> when it returned an error.\<close>

definition returned_ids :: "error + post list \<Rightarrow> string option list option" where
  "returned_ids res = (case res of Inl e \<Rightarrow> None | Inr ps \<Rightarrow> Some (map post_id ps))"

text \<open>A response with status 200, no rate-limit header and the given entries.\<close>

definition ok_response :: "raw_post option list \<Rightarrow> response" where
  "ok_response children =
     \<lparr>status_code = 200, hdr_remaining = None, hdr_reset = None, body = Listing children\<rparr>"

text \<open>
  The \<open>n\<close>-th call of \<^verbatim>\<open>fetch\<close>, if it goes to the URL \<open>u\<close>, ends in an error: it is cut off by
  the timeout, or rejected, or answered with a status or a body the program throws on.
\<close>

definition attempt_error :: "network \<Rightarrow> nat \<Rightarrow> string \<Rightarrow> bool" where
  "attempt_error net n u =
     (int (latency net n) \<ge> REQUEST_TIMEOUT
      \<or> (case respond net n u of
            Aborted \<Rightarrow> True
          | Rejected msg \<Rightarrow> True
          | Responded resp \<Rightarrow> isl (response_posts resp)))"

text \<open>Every fetch of the URL fails.\<close>

definition always_fails :: "network \<Rightarrow> string \<Rightarrow> bool" where
  "always_fails net u = (\<forall>n. attempt_error net n u)"

text \<open>The URL \<open>executeJob\<close> fetches for a job.\<close>

definition job_url :: "job \<Rightarrow> string" where
  "job_url j =
     (if job_type j = ''fetch_popular'' then fetch_url ''popular'' None
      else fetch_url ''subreddit'' (job_subreddit j))"

text \<open>What the console lines say about one job, in order.\<close>

datatype event_kind = Started | RunFailed | RunCompleted | Exceeded

fun event_of :: "sched_event \<Rightarrow> string \<times> event_kind" where
  "event_of (ExceededMaxRetries i) = (i, Exceeded)"
| "event_of (ProcessingJob i) = (i, Started)"
| "event_of (JobCompleted i) = (i, RunCompleted)"
| "event_of (JobFailed i msg) = (i, RunFailed)"

definition job_history :: "string \<Rightarrow> sched_event list \<Rightarrow> event_kind list" where
  "job_history jid trace = map snd (filter (\<lambda>e. fst e = jid) (map event_of trace))"

text \<open>
  The job at index \<open>k\<close> of the queue has the id \<open>jid\<close>, which no other job of the queue has,
  and the URL \<open>u\<close>.
\<close>

definition tracked :: "nat \<Rightarrow> string \<Rightarrow> string \<Rightarrow> job list \<Rightarrow> bool" where
  "tracked k jid u q =
     (k < length q \<and> job_id (q ! k) = jid \<and> job_url (q ! k) = u
      \<and> (\<forall>i<length q. i \<noteq> k \<longrightarrow> job_id (q ! i) \<noteq> jid))"

text \<open>
  The invariant of the scheduler's loop for a job whose fetches all fail: while it is runnable
  it has failed as often as its retries count, at most \<open>MAX_RETRIES\<close> times; once it is
  failed for good it has failed \<open>MAX_RETRIES\<close> times and then exceeded the retries.
\<close>

definition retry_inv :: "nat \<Rightarrow> string \<Rightarrow> string \<Rightarrow> app_state \<Rightarrow> sched_event list \<Rightarrow> bool" where
  "retry_inv k jid u s trace =
     (tracked k jid u (syncQueue s)
      \<and> ((runnable (syncQueue s ! k) \<and> retries (syncQueue s ! k) \<le> MAX_RETRIES
           \<and> job_history jid trace = concat (replicate (retries (syncQueue s ! k)) [Started, RunFailed]))
         \<or> (status (syncQueue s ! k) = FailedMaxRetries
           \<and> job_history jid trace = concat (replicate MAX_RETRIES [Started, RunFailed]) @ [Exceeded])))"

text \<open>A network on which every request takes 20 seconds, past the timeout.\<close>

definition net_timeout :: network where
  "net_timeout = \<lparr>respond = (\<lambda>n u. Rejected ''unreachable''), latency = (\<lambda>n. 20000),
                    lateness = (\<lambda>n. 0)\<rparr>"

text \<open>The initial state after one call of \<open>queueSyncJob\<close> for the subreddit \<open>a\<close>.\<close>

definition one_job_state :: app_state where
  "one_job_state = snd (queueSyncJob ''fetch_subreddit'' (Some ''a'') ''r1'' world_95 (initial_state 0))"

text \<open>
  What \<open>waitForRateLimit\<close> guarantees when it returns: requests remain, the last request is
  at least \<open>REQUEST_INTERVAL\<close> back, the clock has not gone back, no request was sent, and
  the window is as before or a new, later one with the full budget.
\<close>

definition wait_post :: "world \<Rightarrow> app_state \<Rightarrow> world \<Rightarrow> app_state \<Rightarrow> bool" where
  "wait_post w s w1 s1 =
     (let r = rateLimitState s; r1 = rateLimitState s1
      in remainingRequests r1 > 0
       \<and> lastRequestTime r1 = lastRequestTime r
       \<and> clock w1 \<ge> lastRequestTime r + REQUEST_INTERVAL
       \<and> clock w1 \<ge> clock w
       \<and> fetches w1 = fetches w
       \<and> ((resetTime r1 = resetTime r \<and> remainingRequests r1 = remainingRequests r)
          \<or> (resetTime r1 > resetTime r \<and> remainingRequests r1 = REQUESTS_PER_MINUTE)))"

text \<open>No response of the network carries a rate-limit header.\<close>

definition no_header_corrections :: "network \<Rightarrow> bool" where
  "no_header_corrections net =
     (\<forall>n u resp. respond net n u = Responded resp
        \<longrightarrow> hdr_remaining resp = None \<and> hdr_reset resp = None)"

text \<open>The fetch that \<open>fetch_once\<close> sends from this world and state gets a response.\<close>

definition responded :: "network \<Rightarrow> string \<Rightarrow> world \<Rightarrow> app_state \<Rightarrow> bool" where
  "responded net u w s =
     (case do_fetch net u (fst (waitForRateLimit net w s)) of
        (Responded resp, w2) \<Rightarrow> True
      | _ \<Rightarrow> False)"

text \<open>
  A sequence of fetches, each given by its URL and the idle milliseconds before it, and the
  reservations it makes: for each fetch that got a response, the time of the reservation
  (\<^verbatim>\<open>lastRequestTime\<close>) and the window it fell in (\<^verbatim>\<open>resetTime\<close>).
\<close>

fun reservation_log :: "network \<Rightarrow> (string \<times> nat) list \<Rightarrow> world \<Rightarrow> app_state \<Rightarrow> (int \<times> int) list" where
  "reservation_log net [] w s = []"
| "reservation_log net ((u, gap) # calls) w s =
     (case fetch_once net u (w\<lparr>clock := clock w + int gap\<rparr>) s of
        (res, w1, s1) \<Rightarrow>
          (if responded net u (w\<lparr>clock := clock w + int gap\<rparr>) s
           then [(lastRequestTime (rateLimitState s1), resetTime (rateLimitState s1))] else [])
          @ reservation_log net calls w1 s1)"

text \<open>The reservations of the window \<open>R\<close>.\<close>

definition window_count :: "int \<Rightarrow> (int \<times> int) list \<Rightarrow> nat" where
  "window_count R entries = length (filter (\<lambda>e. snd e = R) entries)"

text \<open>Each time is at least \<open>REQUEST_INTERVAL\<close> after the one before it, the first after \<open>prev\<close>.\<close>

fun spaced :: "int \<Rightarrow> int list \<Rightarrow> bool" where
  "spaced prev [] = True"
| "spaced prev (t # ts) = (t \<ge> prev + REQUEST_INTERVAL \<and> spaced t ts)"

text \<open>A network that answers every request after 250 ms with one post; timers fire 3 ms late.\<close>

definition net_ok :: network where
  "net_ok = \<lparr>respond = (\<lambda>n u. Responded (ok_response [Some (raw_entry (Some ''x1'') ''a'' 100)])),
              latency = (\<lambda>n. 250), lateness = (\<lambda>n. 3)\<rparr>"

definition three_fetches :: "(string \<times> nat) list" where
  "three_fetches =
     [(fetch_url ''subreddit'' (Some ''a''), 0), (fetch_url ''popular'' None, 0),
      (fetch_url ''subreddit'' (Some ''b''), 0)]"

text \<open>A network that answers every request after 250 ms with two entries, the second without id.\<close>

definition net_no_id :: network where
  "net_no_id = \<lparr>respond = (\<lambda>n u. Responded (ok_response
                   [Some (raw_entry (Some ''x1'') ''a'' 100), Some (raw_entry None ''a'' 90)])),
                 latency = (\<lambda>n. 250), lateness = (\<lambda>n. 0)\<rparr>"

text \<open>The initial state with one request left in the window.\<close>

definition nearly_spent_state :: app_state where
  "nearly_spent_state =
     (initial_state 0)\<lparr>rateLimitState := (rateLimitState (initial_state 0))\<lparr>remainingRequests := 1\<rparr>\<rparr>"

section \<open>Properties of the merger\<close>

lemmas sample_defs =
  initial_state_def empty_feed_def sample_post_def state_x1_in_b_def state_p1_p2_def

lemmas stage_defs =
  addPostsToPending_def getNewPostsOnly_def existingIds_def matches_subreddit_def falsy_def
  toLowerCase_def lower_char_def feed_of_def set_feed_def staged_def applied_def Let_def

lemma removeDuplicates_seen_ids:
  "post_id ` set (removeDuplicates_seen seen ps) = post_id ` set ps - seen"
  by (induction ps arbitrary: seen) auto

lemma removeDuplicates_seen_distinct: "distinct (map post_id (removeDuplicates_seen seen ps))"
  by (induction ps arbitrary: seen) (auto simp: removeDuplicates_seen_ids)

lemma removeDuplicates_seen_find:
  "i \<notin> seen \<Longrightarrow>
   find (\<lambda>p. post_id p = i) (removeDuplicates_seen seen ps) = find (\<lambda>p. post_id p = i) ps"
proof (induction ps arbitrary: seen)
  case Nil
  show ?case by simp
next
  case (Cons a ps)
  show ?case
  proof (cases "post_id a \<in> seen")
    case True
    with Cons show ?thesis by auto
  next
    case False
    with Cons show ?thesis by auto
  qed
qed

lemma feed_of_set_feed: "feed_of ft (set_feed ft fd s) = fd"
  by (cases ft) (simp_all add: feed_of_def set_feed_def)

lemma staged_addPostsToPending:
  "staged ft (addPostsToPending fetched ft sub s) = staged ft s @ getNewPostsOnly fetched sub ft s"
  by (simp add: addPostsToPending_def staged_def Let_def feed_of_set_feed)

lemma applied_addPostsToPending:
  "applied ft (addPostsToPending fetched ft sub s) = applied ft s"
  by (simp add: addPostsToPending_def applied_def Let_def feed_of_set_feed)

lemma existingIds_alt:
  "existingIds sub (feed_of ft s) =
   post_id ` {p \<in> set (applied ft s) \<union> set (staged ft s). matches_subreddit sub p}"
  by (auto simp: existingIds_def applied_def staged_def)

lemma second_stage_none:
  assumes "\<forall>f \<in> set fetched. matches_subreddit sub f"
  shows "getNewPostsOnly fetched sub ft (addPostsToPending fetched ft sub s) = []"
proof -
  have "post_id f \<in> existingIds sub (feed_of ft (addPostsToPending fetched ft sub s))"
    if f: "f \<in> set fetched" for f
  proof (cases "post_id f \<in> existingIds sub (feed_of ft s)")
    case True
    then show ?thesis
      unfolding existingIds_alt staged_addPostsToPending applied_addPostsToPending by auto
  next
    case False
    with f have "f \<in> set (getNewPostsOnly fetched sub ft s)"
      by (simp add: getNewPostsOnly_def)
    with f assms show ?thesis
      unfolding existingIds_alt staged_addPostsToPending applied_addPostsToPending by auto
  qed
  then show ?thesis by (simp add: getNewPostsOnly_def)
qed

lemma stage_twice:
  assumes "\<forall>f \<in> set fetched. matches_subreddit sub f"
  shows "addPostsToPending fetched ft sub (addPostsToPending fetched ft sub s)
         = addPostsToPending fetched ft sub s"
  using second_stage_none[OF assms, of ft s]
  by (simp add: addPostsToPending_def[of fetched ft sub "addPostsToPending fetched ft sub s"] Let_def)

lemma matches_subreddit_cong:
  "toLowerCase (subreddit p) = toLowerCase (subreddit q)
   \<Longrightarrow> matches_subreddit sub p = matches_subreddit sub q"
  by (simp add: matches_subreddit_def)

lemma getNewPostsOnly_all_ids:
  assumes m: "\<forall>f \<in> set fetched. matches_subreddit sub f"
      and o: "one_subreddit_per_id (applied ft s @ staged ft s @ fetched)"
  shows "getNewPostsOnly fetched sub ft s
         = filter (\<lambda>f. post_id f \<notin> post_id ` (set (applied ft s) \<union> set (staged ft s))) fetched"
  unfolding getNewPostsOnly_def
proof (rule filter_cong[OF refl])
  fix f assume f: "f \<in> set fetched"
  have "post_id f \<in> existingIds sub (feed_of ft s)
        \<longleftrightarrow> post_id f \<in> post_id ` (set (applied ft s) \<union> set (staged ft s))"
  proof
    assume "post_id f \<in> existingIds sub (feed_of ft s)"
    then show "post_id f \<in> post_id ` (set (applied ft s) \<union> set (staged ft s))"
      unfolding existingIds_alt by auto
  next
    assume "post_id f \<in> post_id ` (set (applied ft s) \<union> set (staged ft s))"
    then obtain x where x: "x \<in> set (applied ft s) \<union> set (staged ft s)" "post_id x = post_id f"
      by force
    with o f have "toLowerCase (subreddit x) = toLowerCase (subreddit f)"
      unfolding one_subreddit_per_id_def by auto
    from matches_subreddit_cong[OF this] m f have "matches_subreddit sub x" by simp
    with x(1) have "x \<in> {p \<in> set (applied ft s) \<union> set (staged ft s). matches_subreddit sub p}"
      by simp
    then have "post_id x \<in> existingIds sub (feed_of ft s)"
      unfolding existingIds_alt by (rule imageI)
    with x(2) show "post_id f \<in> existingIds sub (feed_of ft s)" by simp
  qed
  then show "(post_id f \<notin> existingIds sub (feed_of ft s))
             = (post_id f \<notin> post_id ` (set (applied ft s) \<union> set (staged ft s)))"
    by simp
qed

text \<open>
  The comparison of \<open>getNewPostsOnly\<close> is by subreddit. One id under two subreddits is
  outside the data model, where an id stands for one item; on such a feed a fetched post is
  staged although the feed holds its id: \<open>x1\<close> applied under \<open>b\<close> and fetched for \<open>a\<close>.
\<close>

lemma stage_compares_within_subreddit:
  "\<not> one_subreddit_per_id (applied FeedMy state_x1_in_b @ staged FeedMy state_x1_in_b
                            @ [sample_post ''x1'' ''a'' 100])
   \<and> staged FeedMy (addPostsToPending [sample_post ''x1'' ''a'' 100] FeedMy (Some ''a'') state_x1_in_b)
       = [sample_post ''x1'' ''a'' 100]"
  by (simp add: sample_defs stage_defs one_subreddit_per_id_def)

text \<open>
  C1: take a feed and a stage call (\<open>addPostsToPending\<close>) whose fetched posts all match the
  source key, the feed's posts and the fetched ones being items of the data model: an id
  stands for one item, of one subreddit. The call appends to the staging sequence exactly the
  fetched posts whose id is neither in the applied sequence nor in the staging sequence before
  the call, and leaves the applied sequence as it is; so no post it stages has an id that was
  already there, and a staging sequence that shared no id with the applied sequence shares
  none afterwards. Staging the same fetched list again adds nothing: it finds no new post and
  leaves the state as it is.
\<close>

theorem stage_adds_only_new_ids:
  assumes "\<forall>f \<in> set fetched. matches_subreddit sub f"
      and "one_subreddit_per_id (applied ft s @ staged ft s @ fetched)"
  shows "staged ft (addPostsToPending fetched ft sub s)
           = staged ft s
             @ filter (\<lambda>f. post_id f \<notin> post_id ` (set (applied ft s) \<union> set (staged ft s))) fetched
       \<and> applied ft (addPostsToPending fetched ft sub s) = applied ft s
       \<and> (\<forall>a \<in> set (getNewPostsOnly fetched sub ft s).
             post_id a \<notin> post_id ` (set (applied ft s) \<union> set (staged ft s)))
       \<and> (post_id ` set (staged ft s) \<inter> post_id ` set (applied ft s) = {} \<longrightarrow>
            post_id ` set (staged ft (addPostsToPending fetched ft sub s))
              \<inter> post_id ` set (applied ft s) = {})
       \<and> getNewPostsOnly fetched sub ft (addPostsToPending fetched ft sub s) = []
       \<and> staged ft (addPostsToPending fetched ft sub (addPostsToPending fetched ft sub s))
           = staged ft (addPostsToPending fetched ft sub s)
       \<and> addPostsToPending fetched ft sub (addPostsToPending fetched ft sub s)
           = addPostsToPending fetched ft sub s"
proof -
  note new = getNewPostsOnly_all_ids[OF assms]
  have 1: "staged ft (addPostsToPending fetched ft sub s)
           = staged ft s
             @ filter (\<lambda>f. post_id f \<notin> post_id ` (set (applied ft s) \<union> set (staged ft s))) fetched"
    by (simp only: staged_addPostsToPending new)
  have 2: "\<forall>a \<in> set (getNewPostsOnly fetched sub ft s).
             post_id a \<notin> post_id ` (set (applied ft s) \<union> set (staged ft s))"
    unfolding new by simp
  have 3: "post_id ` set (staged ft (addPostsToPending fetched ft sub s))
              \<inter> post_id ` set (applied ft s) = {}"
    if "post_id ` set (staged ft s) \<inter> post_id ` set (applied ft s) = {}"
    using that unfolding 1 by auto
  have 4: "addPostsToPending fetched ft sub (addPostsToPending fetched ft sub s)
           = addPostsToPending fetched ft sub s"
    by (rule stage_twice[OF assms(1)])
  from 1 2 3 4 applied_addPostsToPending[of ft fetched sub s] second_stage_none[OF assms(1), of ft s]
  show ?thesis by simp
qed

theorem stage_adds_only_new_ids_witness:
  "matches_subreddit (Some ''a'') (sample_post ''p2'' ''a'' 200)
   \<and> matches_subreddit (Some ''a'') (sample_post ''p3'' ''a'' 300)
   \<and> one_subreddit_per_id (applied FeedMy state_p1_p2 @ staged FeedMy state_p1_p2
        @ [sample_post ''p2'' ''a'' 200, sample_post ''p3'' ''a'' 300])
   \<and> applied FeedMy state_p1_p2 = [sample_post ''p1'' ''a'' 100]
   \<and> staged FeedMy state_p1_p2 = [sample_post ''p2'' ''A'' 200]
   \<and> staged FeedMy (addPostsToPending [sample_post ''p2'' ''a'' 200, sample_post ''p3'' ''a'' 300]
                        FeedMy (Some ''a'') state_p1_p2)
       = [sample_post ''p2'' ''A'' 200, sample_post ''p3'' ''a'' 300]
   \<and> staged FeedMy (addPostsToPending [sample_post ''p2'' ''a'' 200, sample_post ''p3'' ''a'' 300]
                        FeedMy (Some ''a'')
         (addPostsToPending [sample_post ''p2'' ''a'' 200, sample_post ''p3'' ''a'' 300]
                        FeedMy (Some ''a'') state_p1_p2))
       = [sample_post ''p2'' ''A'' 200, sample_post ''p3'' ''a'' 300]"
proof -
  let ?fetched = "[sample_post ''p2'' ''a'' 200, sample_post ''p3'' ''a'' 300]"
  have h: "\<forall>f \<in> set ?fetched. matches_subreddit (Some ''a'') f"
    by (simp add: sample_defs stage_defs)
  have st: "applied FeedMy state_p1_p2 = [sample_post ''p1'' ''a'' 100]"
    "staged FeedMy state_p1_p2 = [sample_post ''p2'' ''A'' 200]"
    by (simp_all add: sample_defs stage_defs)
  have g: "one_subreddit_per_id (applied FeedMy state_p1_p2 @ staged FeedMy state_p1_p2 @ ?fetched)"
    unfolding st by (simp add: one_subreddit_per_id_def sample_post_def toLowerCase_def lower_char_def)
  from stage_adds_only_new_ids[OF h g]
  have "staged FeedMy (addPostsToPending ?fetched FeedMy (Some ''a'') state_p1_p2)
          = staged FeedMy state_p1_p2
            @ filter (\<lambda>f. post_id f \<notin> post_id ` (set (applied FeedMy state_p1_p2)
                                                  \<union> set (staged FeedMy state_p1_p2))) ?fetched"
       "staged FeedMy (addPostsToPending ?fetched FeedMy (Some ''a'')
            (addPostsToPending ?fetched FeedMy (Some ''a'') state_p1_p2))
          = staged FeedMy (addPostsToPending ?fetched FeedMy (Some ''a'') state_p1_p2)"
    by blast+
  then have "staged FeedMy (addPostsToPending ?fetched FeedMy (Some ''a'') state_p1_p2)
          = [sample_post ''p2'' ''A'' 200, sample_post ''p3'' ''a'' 300]"
       "staged FeedMy (addPostsToPending ?fetched FeedMy (Some ''a'')
            (addPostsToPending ?fetched FeedMy (Some ''a'') state_p1_p2))
          = [sample_post ''p2'' ''A'' 200, sample_post ''p3'' ''a'' 300]"
    unfolding st by (simp_all add: sample_post_def)
  with h g st show ?thesis by simp
qed

section \<open>Properties of the storage manager\<close>

declare saveState.simps [simp del] cleanupOldPosts.simps [simp del]

lemmas storage_defs =
  crowded_world_def crowded_state_def setItem_def getStorageUsagePercent_def below_threshold_def
  CLEANUP_THRESHOLD_def bookmarkedIds_def removeCount_def removedIds_def evict_oldest_def
  saveState.simps cleanupOldPosts.simps maxAge_def MAX_POST_AGE_DAYS_def isOld_def keep_by_age_def
  cleanupOldPostsByAge_def Let_def pinned_posts_def

lemma evicted_from_refl: "evicted_from s s"
  unfolding evicted_from_def
  by (rule exI[of _ "\<lambda>_. True"], rule exI[of _ "\<lambda>_. True"]) simp

lemma evicted_from_trans:
  assumes "evicted_from s s1" "evicted_from s1 s2"
  shows "evicted_from s s2"
proof -
  from assms(1) obtain f g where 1: "\<forall>p. post_id p \<in> bookmarkedIds s \<longrightarrow> f p \<and> g p"
     "s1 = s\<lparr>my := (my s)\<lparr>posts := filter f (posts (my s))\<rparr>,
                popular := (popular s)\<lparr>posts := filter g (posts (popular s))\<rparr>\<rparr>"
    unfolding evicted_from_def by blast
  from assms(2) obtain f' g' where 2: "\<forall>p. post_id p \<in> bookmarkedIds s1 \<longrightarrow> f' p \<and> g' p"
     "s2 = s1\<lparr>my := (my s1)\<lparr>posts := filter f' (posts (my s1))\<rparr>,
                popular := (popular s1)\<lparr>posts := filter g' (posts (popular s1))\<rparr>\<rparr>"
    unfolding evicted_from_def by blast
  have b: "bookmarkedIds s1 = bookmarkedIds s" using 1(2) by (simp add: bookmarkedIds_def)
  show ?thesis unfolding evicted_from_def
    apply (rule exI[of _ "\<lambda>p. f p \<and> f' p"], rule exI[of _ "\<lambda>p. g p \<and> g' p"])
    using 1 2 b by (simp add: filter_filter conj_commute)
qed

lemma collect_removed_subset:
  "collect_removed B n ps R \<subseteq> R \<union> (post_id ` set ps - B)"
  by (induction ps arbitrary: R) (auto split: if_splits)

lemma removedIds_not_bookmarked: "i \<in> removedIds s \<Longrightarrow> i \<notin> bookmarkedIds s"
  using collect_removed_subset[of "bookmarkedIds s" "removeCount s" "rev (posts (my s))" "{}"]
  by (auto simp: removedIds_def)

lemma evicted_from_evict_oldest: "evicted_from s (evict_oldest s)"
  unfolding evicted_from_def evict_oldest_def Let_def
  apply (rule exI[of _ "\<lambda>p. post_id p \<notin> removedIds s"], rule exI[of _ "\<lambda>p. post_id p \<notin> removedIds s"])
  using removedIds_not_bookmarked by auto

lemma evicted_from_save_cleanup:
  "evicted_from s (snd (snd (saveState w s)))"
  "evicted_from s (snd (cleanupOldPosts w s))"
proof (induction w s and w s rule: saveState_cleanupOldPosts.induct)
  case (1 w s)
  show ?case
  proof (cases "setItem w")
    case (Pair out w1)
    show ?thesis
    proof (cases out)
      case (Stored n)
      with Pair show ?thesis by (simp add: saveState.simps evicted_from_refl)
    next
      case QuotaExceededError
      with Pair 1[of out w1] have "evicted_from s (snd (cleanupOldPosts w1 s))" by simp
      with Pair QuotaExceededError show ?thesis
        by (auto simp add: saveState.simps split: prod.splits write_outcome.splits)
    next
      case OtherError
      with Pair show ?thesis by (simp add: saveState.simps evicted_from_refl)
    qed
  qed
next
  case (2 w s)
  show ?case
  proof (cases "below_threshold w s")
    case True
    then show ?thesis by (simp add: cleanupOldPosts.simps evicted_from_refl)
  next
    case False
    with 2 have "evicted_from (evict_oldest s) (snd (snd (saveState w (evict_oldest s))))" by simp
    with evicted_from_evict_oldest have "evicted_from s (snd (snd (saveState w (evict_oldest s))))"
      by (rule evicted_from_trans)
    with False show ?thesis by (auto simp add: cleanupOldPosts.simps split: prod.splits)
  qed
qed

lemma evicted_from_by_age: "evicted_from s (snd (cleanupOldPostsByAge w s))"
proof -
  let ?s1 = "s\<lparr>my := (my s)\<lparr>posts := filter (keep_by_age w s) (posts (my s))\<rparr>,
               popular := (popular s)\<lparr>posts := filter (keep_by_age w s) (posts (popular s))\<rparr>\<rparr>"
  have 1: "evicted_from s ?s1"
    unfolding evicted_from_def
    by (rule exI[of _ "keep_by_age w s"], rule exI[of _ "keep_by_age w s"]) (simp add: keep_by_age_def)
  have "evicted_from ?s1 (snd (snd (saveState w ?s1)))" by (rule evicted_from_save_cleanup)
  with 1 have 2: "evicted_from s (snd (snd (saveState w ?s1)))" by (rule evicted_from_trans)
  show ?thesis using 1 2
    by (auto simp: cleanupOldPostsByAge_def Let_def split: prod.splits)
qed

lemma filter_filter_absorb: "(\<And>x. P x \<Longrightarrow> Q x) \<Longrightarrow> filter P (filter Q xs) = filter P xs"
  by (induction xs) auto

lemma evicted_from_pinned:
  assumes "evicted_from s s'"
  shows "pinned_posts s (posts (my s')) = pinned_posts s (posts (my s))"
    and "pinned_posts s (posts (popular s')) = pinned_posts s (posts (popular s))"
    and "starred s' = starred s"
proof -
  from assms obtain f g where 1: "\<forall>p. post_id p \<in> bookmarkedIds s \<longrightarrow> f p \<and> g p"
     "s' = s\<lparr>my := (my s)\<lparr>posts := filter f (posts (my s))\<rparr>,
                popular := (popular s)\<lparr>posts := filter g (posts (popular s))\<rparr>\<rparr>"
    unfolding evicted_from_def by blast
  have "posts (my s') = filter f (posts (my s))" "posts (popular s') = filter g (posts (popular s))"
    using 1(2) by simp_all
  then show "pinned_posts s (posts (my s')) = pinned_posts s (posts (my s))"
    "pinned_posts s (posts (popular s')) = pinned_posts s (posts (popular s))"
    using 1(1) by (simp_all add: pinned_posts_def filter_filter_absorb del: filter_filter)
  show "starred s' = starred s" using 1 by simp
qed

lemma evicted_from_frame:
  assumes "evicted_from s s'"
  shows "only_applied_changed s s'"
  using assms unfolding evicted_from_def only_applied_changed_def by auto

lemma only_applied_changed_staged:
  assumes "only_applied_changed s s'"
  shows "staged ft s' = staged ft s"
proof -
  from assms have "s' = s\<lparr>my := (my s)\<lparr>posts := posts (my s')\<rparr>,
           popular := (popular s)\<lparr>posts := posts (popular s')\<rparr>\<rparr>"
    by (simp add: only_applied_changed_def)
  then have "my s' = (my s)\<lparr>posts := posts (my s')\<rparr>"
     "popular s' = (popular s)\<lparr>posts := posts (popular s')\<rparr>"
    by (metis app_state.select_convs(1) app_state.surjective app_state.update_convs(1) app_state.update_convs(2),
        metis app_state.select_convs(2) app_state.surjective app_state.update_convs(1) app_state.update_convs(2))
  then have "pending (my s') = pending (my s)" "pending (popular s') = pending (popular s)"
    by (metis feed.select_convs(2) feed.surjective feed.update_convs(1))+
  then show ?thesis by (cases ft) (simp_all add: staged_def feed_of_def)
qed

lemma saveState_frame:
  "only_applied_changed s (snd (snd (saveState w s)))"
  "syncQueue (snd (snd (saveState w s))) = syncQueue s"
  "rateLimitState (snd (snd (saveState w s))) = rateLimitState s"
  "staged ft (snd (snd (saveState w s))) = staged ft s"
proof -
  show a: "only_applied_changed s (snd (snd (saveState w s)))"
    by (rule evicted_from_frame[OF evicted_from_save_cleanup(1)])
  from evicted_from_save_cleanup(1)[of s w]
  show "syncQueue (snd (snd (saveState w s))) = syncQueue s"
    "rateLimitState (snd (snd (saveState w s))) = rateLimitState s"
    unfolding evicted_from_def by auto
  show "staged ft (snd (snd (saveState w s))) = staged ft s"
    by (rule only_applied_changed_staged[OF a])
qed

text \<open>
  C7: neither eviction removes a pinned post. Whatever the clock, the measured storage and the
  outcomes of the writes are, the pinned posts of the my-feed and of the popular feed after
  \<open>cleanupOldPostsByAge\<close> and after \<open>cleanupOldPosts\<close> are the pinned posts before, in the same
  order, and the starred posts are as before.
\<close>

theorem eviction_keeps_pinned:
  "pinned_posts s (posts (my (snd (cleanupOldPostsByAge w s)))) = pinned_posts s (posts (my s))
 \<and> pinned_posts s (posts (popular (snd (cleanupOldPostsByAge w s)))) = pinned_posts s (posts (popular s))
 \<and> starred (snd (cleanupOldPostsByAge w s)) = starred s
 \<and> pinned_posts s (posts (my (snd (cleanupOldPosts w s)))) = pinned_posts s (posts (my s))
 \<and> pinned_posts s (posts (popular (snd (cleanupOldPosts w s)))) = pinned_posts s (posts (popular s))
 \<and> starred (snd (cleanupOldPosts w s)) = starred s"
  using evicted_from_pinned[OF evicted_from_by_age] evicted_from_pinned[OF evicted_from_save_cleanup(2)]
  by blast

theorem eviction_keeps_pinned_witness:
  "posts (my (snd (cleanupOldPostsByAge crowded_world crowded_state))) = [sample_post ''k1'' ''a'' 100]
 \<and> pinned_posts crowded_state (posts (my (snd (cleanupOldPostsByAge crowded_world crowded_state))))
     = [sample_post ''k1'' ''a'' 100]
 \<and> posts (my (snd (cleanupOldPosts crowded_world crowded_state))) = [sample_post ''k1'' ''a'' 100]
 \<and> pinned_posts crowded_state (posts (popular (snd (cleanupOldPosts crowded_world crowded_state))))
     = [sample_post ''k1'' ''a'' 100]"
proof -
  have a: "posts (my (snd (cleanupOldPostsByAge crowded_world crowded_state)))
           = [sample_post ''k1'' ''a'' 100]"
    by (simp add: storage_defs sample_defs)
  have b: "posts (my (snd (cleanupOldPosts crowded_world crowded_state)))
           = [sample_post ''k1'' ''a'' 100]"
    by (simp add: storage_defs sample_defs)
  have c: "pinned_posts crowded_state (posts (my crowded_state)) = [sample_post ''k1'' ''a'' 100]"
          "pinned_posts crowded_state (posts (popular crowded_state)) = [sample_post ''k1'' ''a'' 100]"
    by (simp_all add: pinned_posts_def bookmarkedIds_def crowded_state_def sample_defs)
  from eviction_keeps_pinned[of crowded_state crowded_world] a b c show ?thesis by simp
qed

text \<open>
  C10: both evictions change nothing of the state but the applied posts of the my-feed and of
  the popular feed; in particular the staging sequences are as before, so a staged post older
  than the maximum age survives the cleanup by age.
\<close>

theorem eviction_frame:
  "only_applied_changed s (snd (cleanupOldPostsByAge w s))
 \<and> only_applied_changed s (snd (cleanupOldPosts w s))
 \<and> staged ft (snd (cleanupOldPostsByAge w s)) = staged ft s
 \<and> staged ft (snd (cleanupOldPosts w s)) = staged ft s"
proof -
  have a: "only_applied_changed s (snd (cleanupOldPostsByAge w s))"
    by (rule evicted_from_frame[OF evicted_from_by_age])
  have b: "only_applied_changed s (snd (cleanupOldPosts w s))"
    by (rule evicted_from_frame[OF evicted_from_save_cleanup(2)])
  from a b only_applied_changed_staged show ?thesis by blast
qed

theorem eviction_frame_witness:
  "isOld crowded_world (sample_post ''o2'' ''a'' 40)
 \<and> post_id (sample_post ''o2'' ''a'' 40) \<notin> bookmarkedIds crowded_state
 \<and> staged FeedMy (snd (cleanupOldPostsByAge crowded_world crowded_state)) = [sample_post ''o2'' ''a'' 40]
 \<and> staged FeedMy (snd (cleanupOldPosts crowded_world crowded_state)) = [sample_post ''o2'' ''a'' 40]
 \<and> posts (my (snd (cleanupOldPostsByAge crowded_world crowded_state))) \<noteq> posts (my crowded_state)"
proof -
  have a: "isOld crowded_world (sample_post ''o2'' ''a'' 40)"
          "post_id (sample_post ''o2'' ''a'' 40) \<notin> bookmarkedIds crowded_state"
    by (simp_all add: storage_defs sample_defs)
  have b: "staged FeedMy crowded_state = [sample_post ''o2'' ''a'' 40]"
    by (simp add: staged_def feed_of_def crowded_state_def sample_defs)
  have c: "posts (my (snd (cleanupOldPostsByAge crowded_world crowded_state))) \<noteq> posts (my crowded_state)"
    by (simp add: storage_defs sample_defs)
  from eviction_frame[of crowded_state crowded_world FeedMy] a b c show ?thesis by simp
qed














lemma saveState_no_quota: "fst (setItem w) \<noteq> QuotaExceededError \<Longrightarrow> saveState w s = (fst (setItem w) \<noteq> OtherError, snd (setItem w), s)"
  by (cases "setItem w") (auto simp: saveState.simps split: write_outcome.splits)

lemma below_threshold_iff:
  "below_threshold w s \<longleftrightarrow> storageQuota s \<noteq> 0 \<and> of_nat (ls_size w) / storageQuota s * 100 < CLEANUP_THRESHOLD"
  by (simp add: below_threshold_def getStorageUsagePercent_def)

lemma below_threshold_cong:
  "ls_size w' = ls_size w \<Longrightarrow> storageQuota s' = storageQuota s
   \<Longrightarrow> below_threshold w' s' = below_threshold w s"
  by (simp add: below_threshold_iff)










lemma occurrences_distinct:
  "distinct (map post_id ps) \<Longrightarrow> occurrences i ps = (if i \<in> post_id ` set ps then 1 else 0)"
proof (induction ps)
  case Nil show ?case by (simp add: occurrences_def)
next
  case (Cons a ps)
  then show ?case by (auto simp: occurrences_def)
qed

lemma occurrences_append: "occurrences i (xs @ ys) = occurrences i xs + occurrences i ys"
  by (simp add: occurrences_def)

lemma occurrences_zero: "occurrences i ps = 0 \<longleftrightarrow> i \<notin> post_id ` set ps"
  by (auto simp: occurrences_def filter_empty_conv)

lemma occurrences_new:
  assumes "i \<notin> post_id ` (set (applied ft s) \<union> set (staged ft s))"
  shows "occurrences i (getNewPostsOnly fetched sub ft s) = occurrences i fetched"
proof -
  from assms have "i \<notin> existingIds sub (feed_of ft s)" unfolding existingIds_alt by auto
  then have "filter (\<lambda>p. post_id p = i) (filter (\<lambda>p. post_id p \<notin> existingIds sub (feed_of ft s)) fetched)
           = filter (\<lambda>p. post_id p = i) fetched"
    by (intro filter_filter_absorb) simp
  then show ?thesis by (simp add: occurrences_def getNewPostsOnly_def del: filter_filter)
qed

text \<open>
  C8, as stated, fails: a stage call does not collapse a fetched batch. Staging a batch that
  holds the post \<open>x1\<close> twice into an empty feed leaves \<open>x1\<close> twice in the staging sequence.
\<close>

theorem stage_batch_with_repeat:
  "applied FeedMy (initial_state 0) = []
 \<and> staged FeedMy (initial_state 0) = []
 \<and> staged FeedMy (addPostsToPending [sample_post ''x1'' ''a'' 100, sample_post ''x1'' ''a'' 100]
                      FeedMy (Some ''a'') (initial_state 0))
     = [sample_post ''x1'' ''a'' 100, sample_post ''x1'' ''a'' 100]
 \<and> occurrences (Some ''x1'')
       (staged FeedMy (addPostsToPending [sample_post ''x1'' ''a'' 100, sample_post ''x1'' ''a'' 100]
                         FeedMy (Some ''a'') (initial_state 0))) = 2"
  by (simp add: sample_defs stage_defs occurrences_def)

text \<open>
  C8, amended: a stage call keeps every occurrence. An id that is neither in the applied nor
  in the staging sequence occurs in the staging sequence afterwards as often as in the fetched
  list; the repeats are collapsed when the staged posts are merged into the applied ones
  (\<open>merge_pending\<close>, through \<open>removeDuplicates\<close>): there the id occurs once if it was fetched.
\<close>

theorem stage_keeps_repeats:
  assumes "i \<notin> post_id ` (set (applied ft s) \<union> set (staged ft s))"
  shows "occurrences i (staged ft (addPostsToPending fetched ft sub s)) = occurrences i fetched
       \<and> occurrences i (posts (merge_pending (feed_of ft (addPostsToPending fetched ft sub s))))
           = (if occurrences i fetched = 0 then 0 else 1)"
proof -
  from assms have z: "occurrences i (staged ft s) = 0" "occurrences i (applied ft s) = 0"
    by (auto simp: occurrences_zero)
  have 1: "occurrences i (staged ft (addPostsToPending fetched ft sub s)) = occurrences i fetched"
    using z occurrences_new[OF assms] by (simp add: staged_addPostsToPending occurrences_append)
  let ?s' = "addPostsToPending fetched ft sub s"
  have "posts (merge_pending (feed_of ft ?s')) = sort_created_desc (removeDuplicates (staged ft ?s' @ applied ft ?s'))"
    by (simp add: merge_pending_def staged_def applied_def)
  moreover have "distinct (map post_id (sort_created_desc (removeDuplicates (staged ft ?s' @ applied ft ?s'))))"
    using removeDuplicates_seen_distinct[of "{}" "staged ft ?s' @ applied ft ?s'"]
    by (simp add: sort_created_desc_def removeDuplicates_def distinct_map)
  moreover have "post_id ` set (sort_created_desc (removeDuplicates (staged ft ?s' @ applied ft ?s'))) = post_id ` set (staged ft ?s' @ applied ft ?s')"
    by (simp add: sort_created_desc_def removeDuplicates_def removeDuplicates_seen_ids)
  ultimately have "occurrences i (posts (merge_pending (feed_of ft ?s'))) = (if i \<in> post_id ` set (staged ft ?s' @ applied ft ?s') then 1 else 0)"
    by (simp add: occurrences_distinct)
  moreover have "i \<in> post_id ` set (staged ft ?s' @ applied ft ?s') \<longleftrightarrow> occurrences i fetched \<noteq> 0"
    using 1 z(2) occurrences_zero[of i "staged ft ?s'"] occurrences_zero[of i "applied ft ?s'"]
    by (simp add: applied_addPostsToPending image_Un)
  ultimately show ?thesis using 1 by simp
qed

theorem stage_keeps_repeats_witness:
  "Some ''x1'' \<notin> post_id ` (set (applied FeedMy (initial_state 0)) \<union> set (staged FeedMy (initial_state 0)))
 \<and> occurrences (Some ''x1'')
       (staged FeedMy (addPostsToPending [sample_post ''x1'' ''a'' 100, sample_post ''x1'' ''a'' 100]
                         FeedMy (Some ''a'') (initial_state 0))) = 2
 \<and> occurrences (Some ''x1'')
       (posts (merge_pending (feed_of FeedMy
          (addPostsToPending [sample_post ''x1'' ''a'' 100, sample_post ''x1'' ''a'' 100]
             FeedMy (Some ''a'') (initial_state 0))))) = 1"
proof -
  have h: "Some ''x1'' \<notin> post_id ` (set (applied FeedMy (initial_state 0)) \<union> set (staged FeedMy (initial_state 0)))"
    by (simp add: sample_defs stage_defs)
  have o: "occurrences (Some ''x1'') [sample_post ''x1'' ''a'' 100, sample_post ''x1'' ''a'' 100] = 2"
    by (simp add: occurrences_def sample_post_def)
  from stage_keeps_repeats[OF h, of "[sample_post ''x1'' ''a'' 100, sample_post ''x1'' ''a'' 100]" "Some ''a''"] h o
  show ?thesis by simp
qed

section \<open>Properties of apply\<close>

lemmas apply_defs =
  applyPendingUpdates_def merge_pending_def removeDuplicates_def sort_created_desc_def
  rebuildPopularFiltered_def late_world_def early_crowded_world_def unstaged_state_def merged_def

lemma created_desc_sort: "created_desc (sort_created_desc ps)"
proof -
  have "sorted (map (\<lambda>p. - created_utc p) (sort_key (\<lambda>p. - created_utc p) ps))" by (rule sorted_sort_key)
  then show ?thesis by (simp add: created_desc_def sort_created_desc_def sorted_map)
qed

lemma created_desc_filter: "created_desc ps \<Longrightarrow> created_desc (filter P ps)"
  by (simp add: created_desc_def sorted_wrt_filter)

lemma sort_created_desc_stable:
  "filter (\<lambda>p. created_utc p = t) (sort_created_desc ps) = filter (\<lambda>p. created_utc p = t) ps"
  using sort_key_stable[of "\<lambda>p. - created_utc p" "- t" ps] by (simp add: sort_created_desc_def)

lemma distinct_ids_sort: "distinct (map post_id (sort_created_desc ps)) = distinct (map post_id ps)"
  by (simp add: sort_created_desc_def distinct_map)

lemma setItem_no_quota:
  assumes "QuotaExceededError \<notin> set (writes w)"
  shows "fst (setItem w) \<noteq> QuotaExceededError" "QuotaExceededError \<notin> set (writes (snd (setItem w)))"
    "clock (snd (setItem w)) = clock w"
  using assms by (auto simp: setItem_def split: list.splits write_outcome.splits)

lemma saveState_no_quota_script:
  assumes "QuotaExceededError \<notin> set (writes w)"
  shows "snd (snd (saveState w s)) = s" "QuotaExceededError \<notin> set (writes (fst (snd (saveState w s))))"
    "clock (fst (snd (saveState w s))) = clock w"
  using setItem_no_quota[OF assms] by (simp_all add: saveState_no_quota)

lemma by_age_no_quota:
  assumes "QuotaExceededError \<notin> set (writes w)"
  shows "snd (cleanupOldPostsByAge w s) = s\<lparr>my := (my s)\<lparr>posts := filter (keep_by_age w s) (posts (my s))\<rparr>,
               popular := (popular s)\<lparr>posts := filter (keep_by_age w s) (posts (popular s))\<rparr>\<rparr>"
  using saveState_no_quota_script(1)[OF assms]
  by (simp add: cleanupOldPostsByAge_def Let_def split: prod.splits) (metis snd_conv)

lemma keep_by_age_cong: "clock w' = clock w \<Longrightarrow> starred s' = starred s \<Longrightarrow> keep_by_age w' s' = keep_by_age w s"
  by (auto simp: keep_by_age_def isOld_def bookmarkedIds_def fun_eq_iff)

lemma apply_no_quota:
  assumes "QuotaExceededError \<notin> set (writes w)"
  shows "applied ft (snd (applyPendingUpdates w s))
         = filter (keep_by_age w s) (if staged ft s \<noteq> [] then merged ft s else applied ft s)"
    and "staged ft (snd (applyPendingUpdates w s)) = []"
proof -
  define s1 where "s1 = (if length (pending_posts (pending (my s))) > 0
                then s\<lparr>my := merge_pending (my s)\<rparr> else s)"
  define s2 where "s2 = (if length (pending_posts (pending (popular s1))) > 0
                then rebuildPopularFiltered (s1\<lparr>popular := merge_pending (popular s1)\<rparr>) else s1)"
  have ap: "applyPendingUpdates w s = cleanupOldPostsByAge (fst (snd (saveState w s2))) (snd (snd (saveState w s2)))"
    by (simp add: applyPendingUpdates_def s1_def s2_def Let_def split: prod.splits)
  let ?w1 = "fst (snd (saveState w s2))"
  have w1: "QuotaExceededError \<notin> set (writes ?w1)" "clock ?w1 = clock w" and s3: "snd (snd (saveState w s2)) = s2"
    using saveState_no_quota_script[OF assms] by simp_all
  have st: "starred s2 = starred s" by (simp add: s2_def s1_def rebuildPopularFiltered_def)
  have k: "keep_by_age ?w1 s2 = keep_by_age w s" by (rule keep_by_age_cong[OF w1(2) st])
  have res: "snd (applyPendingUpdates w s) = s2\<lparr>my := (my s2)\<lparr>posts := filter (keep_by_age w s) (posts (my s2))\<rparr>,
               popular := (popular s2)\<lparr>posts := filter (keep_by_age w s) (posts (popular s2))\<rparr>\<rparr>"
    unfolding ap s3 using by_age_no_quota[OF w1(1), of s2] k by simp
  have a2: "applied ft s2 = (if staged ft s \<noteq> [] then merged ft s else applied ft s)"
    by (cases ft) (simp_all add: s2_def s1_def applied_def staged_def merged_def feed_of_def merge_pending_def rebuildPopularFiltered_def)
  have p2: "staged ft s2 = []"
    by (cases ft) (simp_all add: s2_def s1_def staged_def feed_of_def merge_pending_def rebuildPopularFiltered_def)
  show "applied ft (snd (applyPendingUpdates w s))
         = filter (keep_by_age w s) (if staged ft s \<noteq> [] then merged ft s else applied ft s)"
    unfolding res using a2 by (cases ft) (simp_all add: applied_def feed_of_def)
  show "staged ft (snd (applyPendingUpdates w s)) = []"
    unfolding res using p2 by (cases ft) (simp_all add: staged_def feed_of_def)
qed

text \<open>
  C2, as stated, fails: \<open>applyPendingUpdates\<close> ends with \<open>cleanupOldPostsByAge\<close>, and its save
  evicts when the write is refused for quota. With the clock late, the merge of
  \<open>crowded_state\<close> is \<open>r1, k1, o1, o2\<close> but the applied sequence after apply is \<open>r1, k1\<close>; with
  nothing staged the applied sequence \<open>r1, k1, o1\<close> becomes \<open>r1, k1\<close>; and with no post old but
  the write refused for quota the applied sequence after apply is \<open>r1, k1, o1\<close>.
\<close>

theorem apply_drops_old_posts:
  "staged FeedMy crowded_state \<noteq> []
 \<and> merged FeedMy crowded_state
     = [sample_post ''r1'' ''a'' 3999999000, sample_post ''k1'' ''a'' 100,
        sample_post ''o1'' ''a'' 50, sample_post ''o2'' ''a'' 40]
 \<and> applied FeedMy (snd (applyPendingUpdates late_world crowded_state))
     = [sample_post ''r1'' ''a'' 3999999000, sample_post ''k1'' ''a'' 100]
 \<and> staged FeedMy unstaged_state = []
 \<and> applied FeedMy unstaged_state
     = [sample_post ''r1'' ''a'' 3999999000, sample_post ''k1'' ''a'' 100, sample_post ''o1'' ''a'' 50]
 \<and> applied FeedMy (snd (applyPendingUpdates late_world unstaged_state))
     = [sample_post ''r1'' ''a'' 3999999000, sample_post ''k1'' ''a'' 100]
 \<and> applied FeedMy (snd (applyPendingUpdates early_crowded_world crowded_state))
     = [sample_post ''r1'' ''a'' 3999999000, sample_post ''k1'' ''a'' 100, sample_post ''o1'' ''a'' 50]"
  by (simp add: apply_defs storage_defs sample_defs staged_def applied_def feed_of_def)

text \<open>
  C2, amended: when no write of the call throws \<open>QuotaExceededError\<close>, \<open>applyPendingUpdates\<close>
  leaves, for a feed with a non-empty staging sequence, the merge of staged and applied posts
  without the unpinned posts older than the maximum age, and for a feed with an empty staging
  sequence the applied posts without the unpinned posts older than the maximum age; the staging
  sequence is empty afterwards. The merge is the staged posts followed by the applied posts,
  with duplicate ids removed keeping the first occurrence, sorted by \<^verbatim>\<open>created_utc\<close> descending,
  posts of equal \<^verbatim>\<open>created_utc\<close> in their previous order; the applied sequence after a merge is
  sorted descending and has no duplicate id.
\<close>

theorem apply_merges_then_cleans:
  assumes "QuotaExceededError \<notin> set (writes w)"
  shows "(staged ft s \<noteq> [] \<longrightarrow>
            applied ft (snd (applyPendingUpdates w s)) = filter (keep_by_age w s) (merged ft s)
          \<and> created_desc (applied ft (snd (applyPendingUpdates w s)))
          \<and> distinct (map post_id (applied ft (snd (applyPendingUpdates w s)))))
       \<and> (staged ft s = [] \<longrightarrow>
            applied ft (snd (applyPendingUpdates w s)) = filter (keep_by_age w s) (applied ft s))
       \<and> staged ft (snd (applyPendingUpdates w s)) = []
       \<and> merged ft s = sort_created_desc (removeDuplicates (staged ft s @ applied ft s))
       \<and> created_desc (merged ft s)
       \<and> distinct (map post_id (merged ft s))
       \<and> post_id ` set (merged ft s) = post_id ` set (staged ft s @ applied ft s)
       \<and> find (\<lambda>p. post_id p = i) (removeDuplicates (staged ft s @ applied ft s))
           = find (\<lambda>p. post_id p = i) (staged ft s @ applied ft s)
       \<and> filter (\<lambda>p. created_utc p = t) (merged ft s)
           = filter (\<lambda>p. created_utc p = t) (removeDuplicates (staged ft s @ applied ft s))"
proof -
  have d: "distinct (map post_id (merged ft s))"
    using removeDuplicates_seen_distinct[of "{}" "staged ft s @ applied ft s"]
    by (simp add: merged_def distinct_ids_sort removeDuplicates_def)
  have c: "created_desc (merged ft s)" by (simp add: merged_def created_desc_sort)
  have ids: "post_id ` set (merged ft s) = post_id ` set (staged ft s @ applied ft s)"
    by (simp add: merged_def sort_created_desc_def removeDuplicates_def removeDuplicates_seen_ids)
  have f: "find (\<lambda>p. post_id p = i) (removeDuplicates (staged ft s @ applied ft s))
           = find (\<lambda>p. post_id p = i) (staged ft s @ applied ft s)"
    by (simp add: removeDuplicates_def removeDuplicates_seen_find)
  have st: "filter (\<lambda>p. created_utc p = t) (merged ft s)
           = filter (\<lambda>p. created_utc p = t) (removeDuplicates (staged ft s @ applied ft s))"
    by (simp add: merged_def sort_created_desc_stable)
  have df: "distinct (map post_id (filter (keep_by_age w s) (merged ft s)))"
    using d by (simp add: distinct_map_filter)
  from apply_no_quota[OF assms, of ft s] d c ids f st df created_desc_filter[OF c, of "keep_by_age w s"]
  show ?thesis by (simp add: merged_def)
qed

theorem apply_merges_then_cleans_witness:
  "QuotaExceededError \<notin> set (writes late_world)
 \<and> staged FeedMy crowded_state = [sample_post ''o2'' ''a'' 40]
 \<and> applied FeedMy (snd (applyPendingUpdates late_world crowded_state))
     = [sample_post ''r1'' ''a'' 3999999000, sample_post ''k1'' ''a'' 100]
 \<and> staged FeedMy (snd (applyPendingUpdates late_world crowded_state)) = []"
proof -
  have h: "QuotaExceededError \<notin> set (writes late_world)" by (simp add: late_world_def)
  have st: "staged FeedMy crowded_state = [sample_post ''o2'' ''a'' 40]"
    by (simp add: staged_def feed_of_def crowded_state_def sample_defs)
  have m: "filter (keep_by_age late_world crowded_state) (merged FeedMy crowded_state)
           = [sample_post ''r1'' ''a'' 3999999000, sample_post ''k1'' ''a'' 100]"
    by (simp add: apply_defs storage_defs sample_defs staged_def applied_def feed_of_def)
  from apply_merges_then_cleans[OF h, of FeedMy crowded_state] h st m show ?thesis by simp
qed

section \<open>Properties of the job queue\<close>

lemma queueSyncJob_cases:
  "queueSyncJob type sub rnd w s =
     (if has_equivalent type sub (syncQueue s) then (None, s)
      else (Some (new_job type sub rnd w), s\<lparr>syncQueue := syncQueue s @ [new_job type sub rnd w]\<rparr>))"
  by (auto simp: queueSyncJob_def Let_def has_equivalent_def non_terminal_def new_job_def list_ex_iff)

lemma unique_active_queueSyncJob:
  assumes "unique_active (syncQueue s)"
  shows "unique_active (syncQueue (snd (queueSyncJob type sub rnd w s)))"
proof (cases "has_equivalent type sub (syncQueue s)")
  case True
  with assms show ?thesis by (simp add: queueSyncJob_cases)
next
  case False
  have nt: "non_terminal (new_job type sub rnd w)" by (simp add: non_terminal_def new_job_def)
  have key: "job_key (new_job type sub rnd w) = (type, sub)" by (simp add: job_key_def new_job_def)
  from False have "(type, sub) \<notin> set (map job_key (filter non_terminal (syncQueue s)))"
    by (auto simp: has_equivalent_def job_key_def)
  with assms nt key False show ?thesis
    by (simp add: queueSyncJob_cases unique_active_def)
qed

lemma unique_active_enqueue_all:
  "unique_active (syncQueue s) \<Longrightarrow> unique_active (syncQueue (enqueue_all calls s))"
proof (induction calls arbitrary: s)
  case Nil
  then show ?case by simp
next
  case (Cons c calls)
  obtain type sub rnd w where c: "c = (type, sub, rnd, w)" by (metis prod_cases4)
  from Cons.prems have "unique_active (syncQueue (snd (queueSyncJob type sub rnd w s)))"
    by (rule unique_active_queueSyncJob)
  then show ?case unfolding c by (simp add: Cons.IH)
qed

lemma all_less_Suc_shift: "(\<forall>a<Suc n. Q a) \<longleftrightarrow> Q 0 \<and> (\<forall>a<n. Q (Suc a))"
  by (auto simp: less_Suc_eq_0_disj)

lemma unique_active_iff:
  "unique_active q \<longleftrightarrow>
     (\<forall>a<length q. \<forall>b<length q. a \<noteq> b \<and> non_terminal (q ! a) \<and> non_terminal (q ! b)
        \<longrightarrow> \<not> (job_type (q ! a) = job_type (q ! b) \<and> job_subreddit (q ! a) = job_subreddit (q ! b)))"
proof -
  have gen: "distinct (map f (filter P q)) \<longleftrightarrow>
     (\<forall>a<length q. \<forall>b<length q. a \<noteq> b \<and> P (q ! a) \<and> P (q ! b) \<longrightarrow> f (q ! a) \<noteq> f (q ! b))"
    for f :: "job \<Rightarrow> string \<times> string option" and P
  proof (induction q)
    case Nil
    show ?case by simp
  next
    case (Cons x xs)
    have mem: "f x \<in> f ` {y \<in> set xs. P y} \<longleftrightarrow> (\<exists>b<length xs. P (xs ! b) \<and> f (xs ! b) = f x)"
    proof
      assume "f x \<in> f ` {y \<in> set xs. P y}"
      then obtain y where "y \<in> set xs" "P y" "f y = f x" by auto
      then show "\<exists>b<length xs. P (xs ! b) \<and> f (xs ! b) = f x" by (metis in_set_conv_nth)
    next
      assume "\<exists>b<length xs. P (xs ! b) \<and> f (xs ! b) = f x"
      then obtain b where "b < length xs" "P (xs ! b)" "f (xs ! b) = f x" by blast
      then have "xs ! b \<in> {y \<in> set xs. P y}" by simp
      then have "f (xs ! b) \<in> f ` {y \<in> set xs. P y}" by (rule imageI)
      with \<open>f (xs ! b) = f x\<close> show "f x \<in> f ` {y \<in> set xs. P y}" by simp
    qed
    show ?case
    proof (cases "P x")
      case False
      have "(\<forall>a<length (x # xs). \<forall>b<length (x # xs). a \<noteq> b \<and> P ((x # xs) ! a) \<and> P ((x # xs) ! b)
               \<longrightarrow> f ((x # xs) ! a) \<noteq> f ((x # xs) ! b))
           \<longleftrightarrow> (\<forall>a<length xs. \<forall>b<length xs. a \<noteq> b \<and> P (xs ! a) \<and> P (xs ! b) \<longrightarrow> f (xs ! a) \<noteq> f (xs ! b))"
        using False by (auto simp: nth_Cons all_less_Suc_shift split: nat.splits)
      with False Cons.IH show ?thesis by simp
    next
      case True
      have "(\<forall>a<length (x # xs). \<forall>b<length (x # xs). a \<noteq> b \<and> P ((x # xs) ! a) \<and> P ((x # xs) ! b)
               \<longrightarrow> f ((x # xs) ! a) \<noteq> f ((x # xs) ! b))
           \<longleftrightarrow> (\<forall>b<length xs. P (xs ! b) \<longrightarrow> f (xs ! b) \<noteq> f x)
             \<and> (\<forall>a<length xs. \<forall>b<length xs. a \<noteq> b \<and> P (xs ! a) \<and> P (xs ! b) \<longrightarrow> f (xs ! a) \<noteq> f (xs ! b))"
        using True by (auto simp: nth_Cons all_less_Suc_shift split: nat.splits) 
      with True Cons.IH mem show ?thesis by auto
    qed
  qed
  show ?thesis unfolding unique_active_def gen by (auto simp: job_key_def)
qed

text \<open>
  C3: \<open>queueSyncJob\<close> returns \<^verbatim>\<open>null\<close> and leaves the state as it is exactly when the queue
  holds a non-terminal job of the same kind and source key; otherwise it appends one job,
  pending, with no retries, of that kind and source key. A queue in which no two non-terminal
  jobs share kind and source key stays so under one call and under every sequence of calls, from
  the empty queue of the initial state in particular.
\<close>

theorem enqueue_keeps_jobs_unique:
  "(fst (queueSyncJob type sub rnd w s) = None) = has_equivalent type sub (syncQueue s)
 \<and> (has_equivalent type sub (syncQueue s) \<longrightarrow> queueSyncJob type sub rnd w s = (None, s))
 \<and> (\<not> has_equivalent type sub (syncQueue s) \<longrightarrow>
       (\<exists>j. queueSyncJob type sub rnd w s = (Some j, s\<lparr>syncQueue := syncQueue s @ [j]\<rparr>)
            \<and> status j = Pending \<and> retries j = 0 \<and> job_type j = type \<and> job_subreddit j = sub))
 \<and> (unique_active (syncQueue s) \<longrightarrow>
       unique_active (syncQueue (snd (queueSyncJob type sub rnd w s))))
 \<and> (unique_active (syncQueue s) \<longrightarrow> unique_active (syncQueue (enqueue_all calls s)))
 \<and> unique_active (syncQueue (enqueue_all calls (initial_state now)))
 \<and> (unique_active q =
       (\<forall>a<length q. \<forall>b<length q. a \<noteq> b \<and> non_terminal (q ! a) \<and> non_terminal (q ! b)
          \<longrightarrow> \<not> (job_type (q ! a) = job_type (q ! b) \<and> job_subreddit (q ! a) = job_subreddit (q ! b))))"
proof -
  have init: "unique_active (syncQueue (initial_state now))"
    by (simp add: unique_active_def initial_state_def)
  have new: "\<exists>j. queueSyncJob type sub rnd w s = (Some j, s\<lparr>syncQueue := syncQueue s @ [j]\<rparr>)
            \<and> status j = Pending \<and> retries j = 0 \<and> job_type j = type \<and> job_subreddit j = sub"
    if "\<not> has_equivalent type sub (syncQueue s)"
    using that by (intro exI[of _ "new_job type sub rnd w"]) (simp add: queueSyncJob_cases new_job_def)
  have none: "(fst (queueSyncJob type sub rnd w s) = None) = has_equivalent type sub (syncQueue s)"
    by (simp add: queueSyncJob_cases)
  have same: "queueSyncJob type sub rnd w s = (None, s)" if "has_equivalent type sub (syncQueue s)"
    using that by (simp add: queueSyncJob_cases)
  from none same new unique_active_queueSyncJob unique_active_enqueue_all
    unique_active_enqueue_all[OF init] unique_active_iff[of q]
  show ?thesis by blast
qed

theorem enqueue_keeps_jobs_unique_witness:
  "map job_key (syncQueue (enqueue_all three_calls (initial_state 0)))
     = [(''fetch_subreddit'', Some ''a''), (''fetch_popular'', None)]
 \<and> map job_id (syncQueue (enqueue_all three_calls (initial_state 0)))
     = [''fetch_subreddit-a-0-r1'', ''fetch_popular-popular-0-r2'']
 \<and> has_equivalent ''fetch_subreddit'' (Some ''a'') (syncQueue (enqueue_all (take 2 three_calls) (initial_state 0)))
 \<and> fst (queueSyncJob ''fetch_subreddit'' (Some ''a'') ''r3'' world_95
           (enqueue_all (take 2 three_calls) (initial_state 0))) = None
 \<and> unique_active (syncQueue (enqueue_all three_calls (initial_state 0)))"
proof -
  have q: "syncQueue (enqueue_all (take 2 three_calls) (initial_state 0))
           = [new_job ''fetch_subreddit'' (Some ''a'') ''r1'' world_95,
              new_job ''fetch_popular'' None ''r2'' world_95]"
    by (simp add: three_calls_def initial_state_def queueSyncJob_def Let_def new_job_def)
  have q3: "syncQueue (enqueue_all three_calls (initial_state 0))
           = [new_job ''fetch_subreddit'' (Some ''a'') ''r1'' world_95,
              new_job ''fetch_popular'' None ''r2'' world_95]"
    by (simp add: three_calls_def initial_state_def queueSyncJob_def Let_def new_job_def)
  have h: "has_equivalent ''fetch_subreddit'' (Some ''a'')
             (syncQueue (enqueue_all (take 2 three_calls) (initial_state 0)))"
    unfolding q by (simp add: has_equivalent_def new_job_def non_terminal_def)
  from enqueue_keeps_jobs_unique[of "''fetch_subreddit''" "Some ''a''" "''r3''" world_95
         "enqueue_all (take 2 three_calls) (initial_state 0)" three_calls 0 "[]"] h
  have "fst (queueSyncJob ''fetch_subreddit'' (Some ''a'') ''r3'' world_95
           (enqueue_all (take 2 three_calls) (initial_state 0))) = None"
       "unique_active (syncQueue (enqueue_all three_calls (initial_state 0)))"
    by blast+
  with h q3 show ?thesis
    by (simp add: new_job_def job_key_def falsy_def show_int_def world_95_def)
qed

section \<open>Properties of the fetch client\<close>

lemma find_in_band_error: "find_in_band rs = Inl e \<Longrightarrow> e = TypeError"
  by (induction rs rule: find_in_band.induct) (auto split: if_splits)

lemma medium_resolution_error: "medium_resolution rs = Inl e \<Longrightarrow> e = TypeError"
  by (auto simp: medium_resolution_def split: sum.splits option.splits dest: find_in_band_error)

lemma usable_url_error: "usable_url r = Inl e \<Longrightarrow> e = TypeError"
  by (auto simp: usable_url_def split: option.splits js_value.splits if_splits)

lemma gallery_item_url_error: "gallery_item_url metadata item = Inl e \<Longrightarrow> e = TypeError"
  by (auto simp: gallery_item_url_def Let_def
           split: option.splits js_value.splits sum.splits
           dest: medium_resolution_error usable_url_error)

lemma map_throwing_error:
  assumes "\<And>x e. f x = Inl e \<Longrightarrow> e = TypeError"
  shows "map_throwing f xs = Inl e \<Longrightarrow> e = TypeError"
  by (induction xs) (auto split: sum.splits dest: assms)

lemma gallery_urls_error: "gallery_urls listing metadata = Inl e \<Longrightarrow> e = TypeError"
proof -
  assume a: "gallery_urls listing metadata = Inl e"
  show ?thesis
  proof (cases "gallery_items listing")
    case None
    with a show ?thesis by (simp add: gallery_urls_def)
  next
    case (Some items)
    with a have m: "map_throwing (gallery_item_url metadata) items = Inl e"
      by (simp add: gallery_urls_def split: sum.splits)
    have "\<And>x e. gallery_item_url metadata x = Inl e \<Longrightarrow> e = TypeError"
      by (rule gallery_item_url_error)
    from map_throwing_error[of "gallery_item_url metadata", OF this m] show ?thesis .
  qed
qed

lemma preview_url_error: "preview_url preview = Inl e \<Longrightarrow> e = TypeError"
  by (auto simp: preview_url_def split: js_value.splits sum.splits option.splits
           dest: medium_resolution_error usable_url_error)

lemma strip_gallery_error: "strip_gallery r = Inl e \<Longrightarrow> e = TypeError"
  by (auto simp: strip_gallery_def
           split: option.splits list.splits sum.splits
           dest: gallery_urls_error preview_url_error)

lemma strip_video_error: "strip_video r = Inl e \<Longrightarrow> e = TypeError"
  by (auto simp: strip_video_def split: option.splits js_value.splits if_splits)

lemma stripPostData_error: "stripPostData r = Inl e \<Longrightarrow> e = TypeError"
  by (auto simp: stripPostData_def split: sum.splits prod.splits
           dest: strip_gallery_error strip_video_error)

lemma strip_child_error: "strip_child c = Inl e \<Longrightarrow> e = TypeError"
  by (auto simp: strip_child_def split: option.splits dest: stripPostData_error)

lemma stripPostData_id: "stripPostData r = Inr p \<Longrightarrow> post_id p = raw_id r"
  by (auto simp: stripPostData_def split: sum.splits prod.splits)

lemma strip_gallery_raw_id: "strip_gallery (r\<lparr>raw_id := i\<rparr>) = strip_gallery r"
  by (cases "gallery_data r"; cases "media_metadata r"; simp add: strip_gallery_def)

lemma strip_video_raw_id: "strip_video (r\<lparr>raw_id := i\<rparr>) = strip_video r"
  by (simp add: strip_video_def)

lemma stripPostData_isl_id: "isl (stripPostData (r\<lparr>raw_id := i\<rparr>)) = isl (stripPostData r)"
  by (simp add: stripPostData_def strip_gallery_raw_id strip_video_raw_id
           split: sum.splits prod.splits)

lemma map_throwing_isl: "isl (map_throwing f xs) = (\<not> list_all (\<lambda>x. \<not> isl (f x)) xs)"
  by (induction xs) (auto split: sum.splits)

lemma parse_ids:
  "map_throwing strip_child cs = Inr ps
   \<Longrightarrow> length ps = length cs \<and> map post_id ps = map (\<lambda>c. raw_id (the c)) cs"
  by (induction cs arbitrary: ps)
     (auto simp: strip_child_def split: sum.splits option.splits dest: stripPostData_id)

lemmas fetch_defs =
  response_posts_def ok_response_def parse_posts_def strip_child_def stripPostData_def
  strip_gallery_def gallery_urls_def strip_video_def raw_entry_def returned_ids_def

text \<open>
  C9, as stated, fails: \<open>stripPostData\<close> copies the id whatever it is and nothing filters the
  result. A response whose second entry has no id yields that entry's post, with no id, and
  so does a fetch that gets this response.
\<close>

theorem entry_without_id_is_kept:
  "raw_id (raw_entry None ''a'' 90) = None
 \<and> returned_ids (response_posts (ok_response
       [Some (raw_entry (Some ''x1'') ''a'' 100), Some (raw_entry None ''a'' 90)]))
     = Some [Some ''x1'', None]
 \<and> returned_ids (fst (fetchFeed net_no_id ''subreddit'' (Some ''a'') world_95 (initial_state 0)))
     = Some [Some ''x1'', None]"
proof -
  have wt: "waitForRateLimit net_no_id world_95 (initial_state 0)
              = (world_95\<lparr>clock := 1200, timers := 1\<rparr>, initial_state 0)"
    by (simp add: net_no_id_def world_95_def initial_state_def waitForRateLimit.simps
        reset_if_expired_def sleep_def Let_def REQUESTS_PER_MINUTE_def REQUEST_INTERVAL_def
        RATE_LIMIT_RESET_INTERVAL_def)
  have a: "returned_ids (response_posts (ok_response
       [Some (raw_entry (Some ''x1'') ''a'' 100), Some (raw_entry None ''a'' 90)]))
     = Some [Some ''x1'', None]"
    by (simp add: fetch_defs)
  have "fst (fetchFeed net_no_id ''subreddit'' (Some ''a'') world_95 (initial_state 0))
        = response_posts (ok_response
            [Some (raw_entry (Some ''x1'') ''a'' 100), Some (raw_entry None ''a'' 90)])"
    unfolding fetchFeed_def Let_def wt
    by (simp add: net_no_id_def world_95_def REQUEST_TIMEOUT_def)
  with a show ?thesis by (simp add: raw_entry_def)
qed

text \<open>
  C9, amended: the normalization keeps every entry. Whenever the parse of a response returns
  posts, they are the entries', one for one and in order, each with the id of its entry, none
  when the entry has none. An entry without id is neither dropped nor an error: whether the
  normalization of an entry throws does not depend on its id. The parse fails, as a whole and
  with a \<^verbatim>\<open>TypeError\<close>, exactly when some entry has no \<^verbatim>\<open>data\<close> or \<open>stripPostData\<close> throws on
  it. Both fetch functions return just what this parse gives for the response they get.
\<close>

theorem normalization_keeps_every_entry:
  "(stripPostData r = Inr p \<longrightarrow> post_id p = raw_id r)
 \<and> normalizes (Some (r\<lparr>raw_id := i\<rparr>)) = normalizes (Some r)
 \<and> isl (parse_posts (Listing children)) = (\<not> list_all normalizes children)
 \<and> (isl (parse_posts (Listing children)) \<longrightarrow> parse_posts (Listing children) = Inl TypeError)
 \<and> (parse_posts (Listing children) = Inr ps \<longrightarrow>
      length ps = length children \<and> map post_id ps = map (\<lambda>c. raw_id (the c)) children)
 \<and> (200 \<le> status_code resp \<and> status_code resp \<le> 299 \<and> body resp = Listing children \<longrightarrow>
      response_posts resp = parse_posts (Listing children))
 \<and> (do_fetch net u (fst (waitForRateLimit net w s)) = (Responded resp, w2) \<longrightarrow>
      fst (fetch_once net u w s) = response_posts resp)
 \<and> (int (latency net (fetches (fst (waitForRateLimit net w s))))
        < clock w + REQUEST_TIMEOUT - clock (fst (waitForRateLimit net w s))
      \<and> respond net (fetches (fst (waitForRateLimit net w s))) (fetch_url feedType sub) = Responded resp
      \<longrightarrow> fst (fetchFeed net feedType sub w s) = response_posts resp)"
proof -
  have once: "fst (fetch_once net u w s) = response_posts resp"
    if "do_fetch net u (fst (waitForRateLimit net w s)) = (Responded resp, w2)"
    using that by (cases "waitForRateLimit net w s") (simp add: fetch_once_def)
  have single: "fst (fetchFeed net feedType sub w s) = response_posts resp"
    if "int (latency net (fetches (fst (waitForRateLimit net w s))))
          < clock w + REQUEST_TIMEOUT - clock (fst (waitForRateLimit net w s))"
       "respond net (fetches (fst (waitForRateLimit net w s))) (fetch_url feedType sub) = Responded resp"
    using that by (cases "waitForRateLimit net w s") (simp add: fetchFeed_def Let_def)
  have ids: "stripPostData r = Inr p \<longrightarrow> post_id p = raw_id r"
    using stripPostData_id by blast
  have indep: "normalizes (Some (r\<lparr>raw_id := i\<rparr>)) = normalizes (Some r)"
    by (simp add: normalizes_def strip_child_def stripPostData_isl_id)
  have fails: "isl (parse_posts (Listing children)) = (\<not> list_all normalizes children)"
    by (simp add: parse_posts_def map_throwing_isl normalizes_def[abs_def])
  have type_error: "parse_posts (Listing children) = Inl TypeError"
    if "isl (parse_posts (Listing children))"
  proof -
    from that obtain e where e: "map_throwing strip_child children = Inl e"
      by (auto simp: parse_posts_def isl_def)
    from map_throwing_error[OF strip_child_error e] e show ?thesis by (simp add: parse_posts_def)
  qed
  have kept: "length ps = length children \<and> map post_id ps = map (\<lambda>c. raw_id (the c)) children"
    if "parse_posts (Listing children) = Inr ps"
    using that parse_ids[of children ps] by (simp add: parse_posts_def)
  have resp: "response_posts resp = parse_posts (Listing children)"
    if "200 \<le> status_code resp \<and> status_code resp \<le> 299 \<and> body resp = Listing children"
    using that by (auto simp: response_posts_def)
  from ids indep fails type_error kept resp once single show ?thesis by blast
qed

theorem normalization_keeps_every_entry_witness:
  "list_all normalizes [Some (raw_entry (Some ''x1'') ''a'' 100), Some (raw_entry None ''a'' 90)]
 \<and> returned_ids (parse_posts (Listing
       [Some (raw_entry (Some ''x1'') ''a'' 100), Some (raw_entry None ''a'' 90)]))
     = Some [Some ''x1'', None]
 \<and> returned_ids (fst (fetch_once net_no_id (fetch_url ''subreddit'' (Some ''a'')) world_95 (initial_state 0)))
     = Some [Some ''x1'', None]
 \<and> \<not> normalizes (Some (raw_entry_no_items (Some ''x2'')))
 \<and> \<not> normalizes (Some (raw_entry_no_items None))
 \<and> parse_posts (Listing [Some (raw_entry (Some ''x1'') ''a'' 100), Some (raw_entry_no_items (Some ''x2''))])
     = Inl TypeError"
proof -
  let ?cs = "[Some (raw_entry (Some ''x1'') ''a'' 100), Some (raw_entry None ''a'' 90)]"
  let ?bad = "[Some (raw_entry (Some ''x1'') ''a'' 100), Some (raw_entry_no_items (Some ''x2''))]"
  let ?u = "fetch_url ''subreddit'' (Some ''a'')"
  have a: "list_all normalizes ?cs"
    by (simp add: normalizes_def fetch_defs)
  have b: "200 \<le> status_code (ok_response ?cs)" "status_code (ok_response ?cs) \<le> 299"
    "body (ok_response ?cs) = Listing ?cs"
    by (simp_all add: ok_response_def)
  have c: "raw_id (raw_entry (Some ''x1'') ''a'' 100) = Some ''x1''" "raw_id (raw_entry None ''a'' 90) = None"
    by (simp_all add: raw_entry_def)
  have wt: "waitForRateLimit net_no_id world_95 (initial_state 0)
              = (world_95\<lparr>clock := 1200, timers := 1\<rparr>, initial_state 0)"
    by (simp add: net_no_id_def world_95_def initial_state_def waitForRateLimit.simps
        reset_if_expired_def sleep_def Let_def REQUESTS_PER_MINUTE_def REQUEST_INTERVAL_def
        RATE_LIMIT_RESET_INTERVAL_def)
  have d: "do_fetch net_no_id ?u (fst (waitForRateLimit net_no_id world_95 (initial_state 0)))
            = (Responded (ok_response ?cs), world_95\<lparr>clock := 1450, fetches := 1, timers := 1\<rparr>)"
    unfolding wt by (simp add: do_fetch_def net_no_id_def world_95_def Let_def REQUEST_TIMEOUT_def)
  have n: "\<not> normalizes (Some (raw_entry_no_items (Some ''x2'')))"
    by (simp add: normalizes_def strip_child_def stripPostData_def strip_gallery_def
          gallery_urls_def raw_entry_no_items_def raw_entry_def)
  then have bad: "\<not> list_all normalizes ?bad" by simp
  note inst = normalization_keeps_every_entry[where children = ?cs
         and resp = "ok_response ?cs" and net = net_no_id and u = ?u and w = world_95
         and s = "initial_state 0"
         and ?w2.0 = "world_95\<lparr>clock := 1450, fetches := 1, timers := 1\<rparr>"]
  from inst a have ok: "\<not> isl (parse_posts (Listing ?cs))" by blast
  then obtain ps where ps: "parse_posts (Listing ?cs) = Inr ps" by (cases "parse_posts (Listing ?cs)") auto
  with inst[where ps = ps] c
  have "map post_id ps = [Some ''x1'', None]" by simp
  with ps have 1: "returned_ids (parse_posts (Listing ?cs)) = Some [Some ''x1'', None]"
    by (simp add: returned_ids_def)
  from inst b d
  have "fst (fetch_once net_no_id ?u world_95 (initial_state 0)) = parse_posts (Listing ?cs)"
    by simp
  with 1 have 2: "returned_ids (fst (fetch_once net_no_id ?u world_95 (initial_state 0)))
                  = Some [Some ''x1'', None]"
    by simp
  from normalization_keeps_every_entry[where r = "raw_entry_no_items (Some ''x2'')" and i = None] n
  have 3: "\<not> normalizes (Some (raw_entry_no_items None))"
    by (simp add: raw_entry_no_items_def raw_entry_def)
  from normalization_keeps_every_entry[where children = ?bad] bad
  have 4: "parse_posts (Listing ?bad) = Inl TypeError" by blast
  from a 1 2 n 3 4 show ?thesis by simp
qed

section \<open>Properties of the scheduler\<close>

lemma fetch_once_fails:
  assumes "always_fails net u"
  shows "isl (fst (fetch_once net u w s))"
proof -
  obtain w1 s1 where wt: "waitForRateLimit net w s = (w1, s1)" by (metis prod.exhaust)
  from assms have e: "attempt_error net (fetches w1) u" by (simp add: always_fails_def)
  show ?thesis
  proof (cases "int (latency net (fetches w1)) \<ge> REQUEST_TIMEOUT")
    case True
    then show ?thesis by (simp add: fetch_once_def wt do_fetch_def Let_def)
  next
    case False
    with e show ?thesis
      by (cases "respond net (fetches w1) u")
         (simp_all add: fetch_once_def wt do_fetch_def Let_def attempt_error_def)
  qed
qed

lemma fetch_attempts_fails:
  "always_fails net u \<Longrightarrow> isl (fst (fetch_attempts net u m a e w s))"
proof (induction net u m a e w s rule: fetch_attempts.induct)
  case (1 net u maxRetries attempt lastError w s)
  show ?case
  proof (cases "attempt \<le> maxRetries")
    case False
    then show ?thesis by (subst fetch_attempts.simps) simp
  next
    case True
    obtain res w1 s1 where f: "fetch_once net u w s = (res, w1, s1)" by (metis prod_cases3)
    from fetch_once_fails[OF "1.prems", of w s] f obtain msg where res: "res = Inl msg"
      by (cases res) auto
    from "1.IH"[OF True f[symmetric] res refl "1.prems"] True f res
    show ?thesis by (subst fetch_attempts.simps) simp
  qed
qed

lemma executeJob_fails:
  assumes "always_fails net (job_url j)"
  shows "\<exists>msg. fst (executeJob net j w s) = Failure msg"
proof -
  have f: "\<exists>msg w1 s1. fetchFeedWithRetry net ft sub rc w s = (Inl msg, w1, s1)"
    if "always_fails net (fetch_url ft sub)" for ft sub rc
  proof -
    from fetch_attempts_fails[OF that, of "min 3 (int MAX_RETRIES - rc)" 0 None w s]
    show ?thesis unfolding fetchFeedWithRetry_def
      by (metis isl_def prod.collapse)
  qed
  show ?thesis
  proof (cases "job_type j = ''fetch_subreddit''")
    case True
    with assms have "always_fails net (fetch_url ''subreddit'' (job_subreddit j))"
      by (simp add: job_url_def)
    from f[OF this, of "int (retries j) - 1"] True show ?thesis
      by (auto simp: executeJob_def)
  next
    case ns: False
    show ?thesis
    proof (cases "job_type j = ''fetch_popular''")
      case True
      with assms have "always_fails net (fetch_url ''popular'' None)" by (simp add: job_url_def)
      from f[OF this, of "int (retries j) - 1"] True ns show ?thesis
        by (auto simp: executeJob_def)
    next
      case False
      with ns show ?thesis by (simp add: executeJob_def)
    qed
  qed
qed

lemma run_queue_invariant:
  "(\<And>w s trace i w1 s1 evs. I s trace \<Longrightarrow> first_runnable (syncQueue s) = Some i
              \<Longrightarrow> sched_step net i w s = (w1, s1, evs) \<Longrightarrow> I s1 (trace @ evs))
   \<Longrightarrow> I s trace
   \<Longrightarrow> I (fst (snd (run_queue net w s trace))) (snd (snd (run_queue net w s trace)))
       \<and> first_runnable (syncQueue (fst (snd (run_queue net w s trace)))) = None"
proof (induction net w s trace rule: run_queue.induct)
  case (1 net w s trace)
  show ?case
  proof (cases "first_runnable (syncQueue s)")
    case None
    with "1.prems"(2) show ?thesis by (subst (1 2 3) run_queue.simps) simp
  next
    case (Some i)
    obtain w1 s1 evs where st: "sched_step net i w s = (w1, s1, evs)" by (metis prod_cases3)
    have "I s1 (trace @ evs)" by (rule "1.prems"(1)[OF "1.prems"(2) Some st])
    from "1.IH"[OF Some st[symmetric] refl "1.prems"(1) this] Some st
    show ?thesis by (subst (1 2 3) run_queue.simps) simp
  qed
qed

lemma job_history_append: "job_history jid (t1 @ t2) = job_history jid t1 @ job_history jid t2"
  by (simp add: job_history_def)

lemma tracked_update:
  assumes "tracked k jid u q" "i < length q" "job_id j' = job_id (q ! i)" "job_url j' = job_url (q ! i)"
  shows "tracked k jid u (q[i := j'])"
  using assms unfolding tracked_def by (auto simp: nth_list_update)

lemma concat_replicate_snoc: "concat (replicate n xs) @ xs = xs @ concat (replicate n xs)"
  by (induction n) auto

lemma retry_inv_step:
  assumes fails: "always_fails net u"
    and inv: "retry_inv k jid u s trace"
    and fr: "first_runnable (syncQueue s) = Some i"
    and st: "sched_step net i w s = (w1, s1, evs)"
  shows "retry_inv k jid u s1 (trace @ evs)"
proof -
  let ?q = "syncQueue s"
  from first_runnable_Some[OF fr] have i: "i < length ?q" "runnable (?q ! i)" by auto
  from inv have tr: "tracked k jid u ?q" by (simp add: retry_inv_def)
  then have k: "k < length ?q" "job_id (?q ! k) = jid" "job_url (?q ! k) = u"
    and other: "i \<noteq> k \<Longrightarrow> job_id (?q ! i) \<noteq> jid"
    using i(1) by (auto simp: tracked_def)
  define j1 where "j1 = (?q ! i)\<lparr>status := Processing, startTime := Some (clock w),
                                retries := Suc (retries (?q ! i))\<rparr>"
  obtain res w2 s2 where e: "executeJob net j1 w (s\<lparr>syncQueue := ?q[i := j1]\<rparr>) = (res, w2, s2)"
    by (metis prod_cases3)
  have url1: "job_url j1 = job_url (?q ! i)" by (simp add: j1_def job_url_def)
  \<comment> \<open>the step, in both cases, replaces job i by j' and writes events about job i\<close>
  obtain j' where step:
      "syncQueue s1 = ?q[i := j']" "job_id j' = job_id (?q ! i)" "job_url j' = job_url (?q ! i)"
      "retries (?q ! i) \<ge> MAX_RETRIES \<Longrightarrow> status j' = FailedMaxRetries \<and> retries j' = retries (?q ! i)
           \<and> job_history jid evs = (if job_id (?q ! i) = jid then [Exceeded] else [])"
      "\<not> retries (?q ! i) \<ge> MAX_RETRIES \<Longrightarrow> retries j' = Suc (retries (?q ! i))
           \<and> status j' = (case res of Success \<Rightarrow> Completed | Failure m \<Rightarrow> Failed)
           \<and> job_history jid evs = (if job_id (?q ! i) = jid
                 then [Started, (case res of Success \<Rightarrow> RunCompleted | Failure m \<Rightarrow> RunFailed)] else [])"
  proof (cases "retries (?q ! i) \<ge> MAX_RETRIES")
    case True
    from st[unfolded sched_step_exceeded[OF True]]
    have "s1 = s\<lparr>syncQueue := ?q[i := (?q ! i)\<lparr>status := FailedMaxRetries\<rparr>]\<rparr>"
         "evs = [ExceededMaxRetries (job_id (?q ! i))]" by simp_all
    with True that[of "(?q ! i)\<lparr>status := FailedMaxRetries\<rparr>"] show ?thesis
      by (simp add: job_history_def job_url_def)
  next
    case False
    from st[unfolded sched_step_run[OF False i(1) j1_def e]]
    have "s1 = s2\<lparr>syncQueue := ?q[i := j1\<lparr>status := (case res of Success \<Rightarrow> Completed | Failure m \<Rightarrow> Failed)\<rparr>]\<rparr>"
         "evs = [ProcessingJob (job_id (?q ! i)),
             (case res of Success \<Rightarrow> JobCompleted (job_id (?q ! i))
                        | Failure m \<Rightarrow> JobFailed (job_id (?q ! i)) m)]" by simp_all
    with False that[of "j1\<lparr>status := (case res of Success \<Rightarrow> Completed | Failure m \<Rightarrow> Failed)\<rparr>"]
    show ?thesis
      by (cases res) (simp_all add: job_history_def job_url_def j1_def)
  qed
  have tr1: "tracked k jid u (syncQueue s1)"
    unfolding step(1) by (rule tracked_update[OF tr i(1) step(2) step(3)])
  show ?thesis
  proof (cases "i = k")
    case False
    then have same: "syncQueue s1 ! k = ?q ! k" by (simp add: step(1))
    from other[OF False] step(4,5) have "job_history jid evs = []"
      by (cases "retries (?q ! i) \<ge> MAX_RETRIES") simp_all
    with inv tr1 same show ?thesis by (simp add: retry_inv_def job_history_append)
  next
    case True
    with k(1) have at: "syncQueue s1 ! k = j'" by (simp add: step(1))
    from inv i(2) True have cur: "retries (?q ! k) \<le> MAX_RETRIES"
      "job_history jid trace = concat (replicate (retries (?q ! k)) [Started, RunFailed])"
      by (auto simp: retry_inv_def runnable_def)
    show ?thesis
    proof (cases "retries (?q ! i) \<ge> MAX_RETRIES")
      case ex: True
      with cur(1) True have "retries (?q ! k) = MAX_RETRIES" by simp
      with step(4)[OF ex] cur(2) True k(2) tr1 at show ?thesis
        by (simp add: retry_inv_def job_history_append)
    next
      case run: False
      from fails k(3) True url1 have "always_fails net (job_url j1)" by simp
      from executeJob_fails[OF this, of w "s\<lparr>syncQueue := ?q[i := j1]\<rparr>"] e
      obtain msg where "res = Failure msg" by auto
      with step(5)[OF run] cur True k(2) tr1 at run show ?thesis
        by (simp add: retry_inv_def job_history_append runnable_def concat_replicate_snoc)
    qed
  qed
qed

lemma only_applied_changed_queue: "only_applied_changed s s' \<Longrightarrow> syncQueue s' = syncQueue s"
  unfolding only_applied_changed_def
  by (metis app_state.select_convs(10) app_state.surjective app_state.update_convs(1) app_state.update_convs(2))

lemma saveState_queue: "syncQueue (snd (snd (saveState w s))) = syncQueue s"
  by (rule only_applied_changed_queue[OF evicted_from_frame[OF evicted_from_save_cleanup(1)]])

lemma auto_apply_queue: "syncQueue (snd (auto_apply ft w s)) = syncQueue s"
proof (cases "length (posts (feed_of ft s)) = 0 \<and> length (pending_posts (pending (feed_of ft s))) > 0")
  case False
  then show ?thesis by (auto simp: auto_apply_def)
next
  case True
  define s2 where "s2 = (if ft = FeedPopular then rebuildPopularFiltered (set_feed ft (merge_pending (feed_of ft s)) s)
                         else set_feed ft (merge_pending (feed_of ft s)) s)"
  have q: "syncQueue s2 = syncQueue s"
    by (cases ft) (simp_all add: s2_def set_feed_def rebuildPopularFiltered_def)
  have "snd (auto_apply ft w s) = snd (snd (saveState w s2))"
    using True by (simp add: auto_apply_def Let_def s2_def split: prod.splits)
  with saveState_queue[of w s2] q show ?thesis by simp
qed

lemma processSyncQueue_unfold:
  assumes "\<not> isProcessingQueue s" "online w"
  shows "snd (snd (processSyncQueue net w s)) = snd (snd (run_queue net w (s\<lparr>isProcessingQueue := True\<rparr>) []))"
    and "syncQueue (fst (snd (processSyncQueue net w s)))
         = filter (\<lambda>j. status j \<noteq> Completed \<and> status j \<noteq> FailedMaxRetries)
             (syncQueue (fst (snd (run_queue net w (s\<lparr>isProcessingQueue := True\<rparr>) []))))"
proof -
  obtain w1 s1 trace where r: "run_queue net w (s\<lparr>isProcessingQueue := True\<rparr>) [] = (w1, s1, trace)"
    by (metis prod_cases3)
  define s3 where "s3 = s1\<lparr>syncQueue := filter (\<lambda>j. status j \<noteq> Completed \<and> status j \<noteq> FailedMaxRetries)
                                               (syncQueue s1), isProcessingQueue := False\<rparr>"
  obtain ok w2 s4 where sv: "saveState w1 s3 = (ok, w2, s4)" by (metis prod_cases3)
  obtain w3 s5 where a1: "auto_apply FeedMy w2 s4 = (w3, s5)" by (metis prod.exhaust)
  obtain w4 s6 where a2: "auto_apply FeedPopular w3 s5 = (w4, s6)" by (metis prod.exhaust)
  have p: "processSyncQueue net w s = (w4, s6, trace)"
    using assms r sv a1 a2 by (simp add: processSyncQueue_def Let_def s3_def)
  have "syncQueue s4 = syncQueue s3" using saveState_queue[of w1 s3] sv by simp
  moreover have "syncQueue s5 = syncQueue s4" using auto_apply_queue[of FeedMy w2 s4] a1 by simp
  moreover have "syncQueue s6 = syncQueue s5" using auto_apply_queue[of FeedPopular w3 s5] a2 by simp
  ultimately have "syncQueue s6 = filter (\<lambda>j. status j \<noteq> Completed \<and> status j \<noteq> FailedMaxRetries) (syncQueue s1)"
    by (simp add: s3_def)
  with p r show "snd (snd (processSyncQueue net w s)) = snd (snd (run_queue net w (s\<lparr>isProcessingQueue := True\<rparr>) []))"
    and "syncQueue (fst (snd (processSyncQueue net w s)))
         = filter (\<lambda>j. status j \<noteq> Completed \<and> status j \<noteq> FailedMaxRetries)
             (syncQueue (fst (snd (run_queue net w (s\<lparr>isProcessingQueue := True\<rparr>) []))))"
    by simp_all
qed

text \<open>
  C4: let a pending job with no retries yet, whose id no other job of the queue has, be in the
  queue, and let every fetch of its URL fail (by timeout, for one). Then one pass of
  \<open>processSyncQueue\<close> runs the job three times, each run failing, the retries counter going to
  \<open>MAX_RETRIES\<close> = 3; the fourth time the scheduler picks the job it marks it failed for good
  instead of running it; and after the pass no job of that id is in the queue.
\<close>

theorem failing_job_retried_then_dropped:
  assumes "\<not> isProcessingQueue s" "online w"
    and "k < length (syncQueue s)"
    and "status (syncQueue s ! k) = Pending" "retries (syncQueue s ! k) = 0"
    and "\<forall>i<length (syncQueue s). i \<noteq> k \<longrightarrow> job_id (syncQueue s ! i) \<noteq> job_id (syncQueue s ! k)"
    and "always_fails net (job_url (syncQueue s ! k))"
  shows "job_history (job_id (syncQueue s ! k)) (snd (snd (processSyncQueue net w s)))
           = [Started, RunFailed, Started, RunFailed, Started, RunFailed, Exceeded]
       \<and> job_id (syncQueue s ! k) \<notin> job_id ` set (syncQueue (fst (snd (processSyncQueue net w s))))"
proof -
  let ?jid = "job_id (syncQueue s ! k)" and ?u = "job_url (syncQueue s ! k)"
  let ?s0 = "s\<lparr>isProcessingQueue := True\<rparr>"
  let ?R = "run_queue net w ?s0 []"
  have init: "retry_inv k ?jid ?u ?s0 []"
    using assms(3-6) by (simp add: retry_inv_def tracked_def runnable_def job_history_def)
  have fin: "retry_inv k ?jid ?u (fst (snd ?R)) (snd (snd ?R))
       \<and> first_runnable (syncQueue (fst (snd ?R))) = None"
    by (rule run_queue_invariant[where I = "retry_inv k ?jid ?u", OF retry_inv_step[OF assms(7)] init])
  let ?q = "syncQueue (fst (snd ?R))"
  from fin have tr: "tracked k ?jid ?u ?q" by (simp add: retry_inv_def)
  then have kq: "k < length ?q" by (simp add: tracked_def)
  from fin have "\<not> runnable (?q ! k)" using kq by (simp add: first_runnable_None)
  with fin have fini: "status (?q ! k) = FailedMaxRetries"
    "job_history ?jid (snd (snd ?R)) = concat (replicate MAX_RETRIES [Started, RunFailed]) @ [Exceeded]"
    by (auto simp: retry_inv_def)
  have hist: "job_history ?jid (snd (snd (processSyncQueue net w s)))
           = [Started, RunFailed, Started, RunFailed, Started, RunFailed, Exceeded]"
    unfolding processSyncQueue_unfold(1)[OF assms(1,2)] fini(2)
    by (simp add: MAX_RETRIES_def numeral_3_eq_3)
  have "?jid \<notin> job_id ` set (filter (\<lambda>j. status j \<noteq> Completed \<and> status j \<noteq> FailedMaxRetries) ?q)"
  proof
    assume "?jid \<in> job_id ` set (filter (\<lambda>j. status j \<noteq> Completed \<and> status j \<noteq> FailedMaxRetries) ?q)"
    then obtain j where j: "j \<in> set ?q" "status j \<noteq> FailedMaxRetries" "job_id j = ?jid" by auto
    then obtain i where i: "i < length ?q" "?q ! i = j" by (metis in_set_conv_nth)
    with j(3) tr have "i = k" unfolding tracked_def by metis
    with i j(2) fini(1) show False by simp
  qed
  then show ?thesis using hist unfolding processSyncQueue_unfold(2)[OF assms(1,2)] by simp
qed

theorem failing_job_retried_then_dropped_witness:
  "always_fails net_timeout (job_url (syncQueue one_job_state ! 0))
 \<and> map job_id (syncQueue one_job_state) = [''fetch_subreddit-a-0-r1'']
 \<and> job_history ''fetch_subreddit-a-0-r1'' (snd (snd (processSyncQueue net_timeout world_95 one_job_state)))
     = [Started, RunFailed, Started, RunFailed, Started, RunFailed, Exceeded]
 \<and> ''fetch_subreddit-a-0-r1''
     \<notin> job_id ` set (syncQueue (fst (snd (processSyncQueue net_timeout world_95 one_job_state))))"
proof -
  have q: "syncQueue one_job_state = [new_job ''fetch_subreddit'' (Some ''a'') ''r1'' world_95]"
    by (simp add: one_job_state_def queueSyncJob_cases has_equivalent_def initial_state_def)
  have jid: "job_id (new_job ''fetch_subreddit'' (Some ''a'') ''r1'' world_95) = ''fetch_subreddit-a-0-r1''"
    by (simp add: new_job_def falsy_def show_int_def world_95_def)
  have h1: "\<not> isProcessingQueue one_job_state" "online world_95"
    by (simp_all add: one_job_state_def queueSyncJob_cases has_equivalent_def initial_state_def world_95_def)
  have h2: "0 < length (syncQueue one_job_state)" "status (syncQueue one_job_state ! 0) = Pending"
    "retries (syncQueue one_job_state ! 0) = 0"
    "\<forall>i<length (syncQueue one_job_state). i \<noteq> 0
        \<longrightarrow> job_id (syncQueue one_job_state ! i) \<noteq> job_id (syncQueue one_job_state ! 0)"
    unfolding q by (simp_all add: new_job_def)
  have h3: "always_fails net_timeout (job_url (syncQueue one_job_state ! 0))"
    by (simp add: always_fails_def attempt_error_def net_timeout_def REQUEST_TIMEOUT_def)
  from failing_job_retried_then_dropped[OF h1 h2 h3] h3 q jid show ?thesis by simp
qed

section \<open>Properties of the rate limiter\<close>

lemma waitForRateLimit_post:
  "wait_post w s (fst (waitForRateLimit net w s)) (snd (waitForRateLimit net w s))"
proof (induction net w s rule: waitForRateLimit.induct)
  case (1 net w s)
  let ?r = "reset_if_expired (clock w) (rateLimitState s)"
  let ?s1 = "s\<lparr>rateLimitState := ?r\<rparr>"
  have reset: "(resetTime ?r = resetTime (rateLimitState s) \<and> remainingRequests ?r = remainingRequests (rateLimitState s))
          \<or> (resetTime ?r > resetTime (rateLimitState s) \<and> remainingRequests ?r = REQUESTS_PER_MINUTE)"
    and last: "lastRequestTime ?r = lastRequestTime (rateLimitState s)"
    by (auto simp: reset_if_expired_def RATE_LIMIT_RESET_INTERVAL_def)
  show ?case
  proof (cases "remainingRequests ?r > 0")
    case True
    show ?thesis
    proof (cases "clock w - lastRequestTime ?r \<ge> REQUEST_INTERVAL")
      case now: True
      with True reset last show ?thesis
        by (subst (1 2) waitForRateLimit.simps) (simp add: Let_def wait_post_def)
    next
      case False
      with True reset last show ?thesis
        by (subst (1 2) waitForRateLimit.simps) (simp add: Let_def wait_post_def sleep_def)
    qed
  next
    case False
    let ?w1 = "sleep net (max 0 (resetTime ?r - clock w) + 100) w"
    from False have nr: "?r = rateLimitState s"
      by (auto simp: reset_if_expired_def REQUESTS_PER_MINUTE_def split: if_splits)
    from 1[OF refl refl refl False refl]
    have ih: "wait_post ?w1 ?s1 (fst (waitForRateLimit net ?w1 ?s1)) (snd (waitForRateLimit net ?w1 ?s1))" .
    have "clock ?w1 \<ge> clock w" "fetches ?w1 = fetches w" by (simp_all add: sleep_def)
    with ih nr have "wait_post w s (fst (waitForRateLimit net ?w1 ?s1)) (snd (waitForRateLimit net ?w1 ?s1))"
      by (auto simp: wait_post_def Let_def)
    with False show ?thesis
      by (subst (1 2) waitForRateLimit.simps) (simp add: Let_def)
  qed
qed

lemma fetch_once_rate:
  assumes nh: "no_header_corrections net"
  shows "rateLimitState (snd (snd (fetch_once net u w s)))
         = (let r1 = rateLimitState (snd (waitForRateLimit net w s))
            in if responded net u w s
               then r1\<lparr>lastRequestTime := clock (fst (snd (fetch_once net u w s))),
                       remainingRequests := max 0 (remainingRequests r1 - 1),
                       requestCount := Suc (requestCount r1)\<rparr>
               else r1)"
    and "clock (fst (snd (fetch_once net u w s))) \<ge> clock (fst (waitForRateLimit net w s))"
proof -
  obtain w1 s1 where wt: "waitForRateLimit net w s = (w1, s1)" by (metis prod.exhaust)
  obtain out w2 where df: "do_fetch net u w1 = (out, w2)" by (metis prod.exhaust)
  have c: "clock w2 \<ge> clock w1"
    using df by (auto simp: do_fetch_def Let_def REQUEST_TIMEOUT_def split: if_splits)
  have hd: "hdr_remaining resp = None \<and> hdr_reset resp = None" if "out = Responded resp" for resp
    using df that nh by (auto simp: do_fetch_def Let_def no_header_corrections_def split: if_splits)
  show "rateLimitState (snd (snd (fetch_once net u w s)))
         = (let r1 = rateLimitState (snd (waitForRateLimit net w s))
            in if responded net u w s
               then r1\<lparr>lastRequestTime := clock (fst (snd (fetch_once net u w s))),
                       remainingRequests := max 0 (remainingRequests r1 - 1),
                       requestCount := Suc (requestCount r1)\<rparr>
               else r1)"
    using hd by (cases out)
      (simp_all add: fetch_once_def responded_def wt df Let_def updateRateLimitFromHeaders_def reserve_request_def)
  show "clock (fst (snd (fetch_once net u w s))) \<ge> clock (fst (waitForRateLimit net w s))"
    using c by (cases out) (simp_all add: fetch_once_def wt df)
qed

lemma reservation_step:
  fixes net u w s
  defines "r \<equiv> rateLimitState s"
    and "r' \<equiv> rateLimitState (snd (snd (fetch_once net u w s)))"
  assumes nh: "no_header_corrections net"
  shows "responded net u w s \<Longrightarrow>
           lastRequestTime r' \<ge> lastRequestTime r + REQUEST_INTERVAL
         \<and> ((resetTime r' = resetTime r \<and> remainingRequests r > 0
              \<and> remainingRequests r' = remainingRequests r - 1)
            \<or> (resetTime r' > resetTime r \<and> remainingRequests r' = REQUESTS_PER_MINUTE - 1))"
    and "\<not> responded net u w s \<Longrightarrow>
           lastRequestTime r' = lastRequestTime r
         \<and> ((resetTime r' = resetTime r \<and> remainingRequests r' = remainingRequests r)
            \<or> (resetTime r' > resetTime r \<and> remainingRequests r' = REQUESTS_PER_MINUTE))"
proof -
  let ?w1 = "fst (waitForRateLimit net w s)" and ?s1 = "snd (waitForRateLimit net w s)"
  have post: "wait_post w s ?w1 ?s1" by (rule waitForRateLimit_post)
  note rate = fetch_once_rate[OF nh, where u=u and w=w and s=s]
  show "responded net u w s \<Longrightarrow>
           lastRequestTime r' \<ge> lastRequestTime r + REQUEST_INTERVAL
         \<and> ((resetTime r' = resetTime r \<and> remainingRequests r > 0
              \<and> remainingRequests r' = remainingRequests r - 1)
            \<or> (resetTime r' > resetTime r \<and> remainingRequests r' = REQUESTS_PER_MINUTE - 1))"
    using post rate unfolding r_def r'_def wait_post_def Let_def
    by (auto simp: REQUESTS_PER_MINUTE_def)
  show "\<not> responded net u w s \<Longrightarrow>
           lastRequestTime r' = lastRequestTime r
         \<and> ((resetTime r' = resetTime r \<and> remainingRequests r' = remainingRequests r)
            \<or> (resetTime r' > resetTime r \<and> remainingRequests r' = REQUESTS_PER_MINUTE))"
    using post rate unfolding r_def r'_def wait_post_def Let_def
    by auto
qed

lemma spaced_log:
  assumes nh: "no_header_corrections net"
  shows "spaced (lastRequestTime (rateLimitState s)) (map fst (reservation_log net calls w s))"
proof (induction calls arbitrary: w s)
  case Nil
  show ?case by simp
next
  case (Cons c calls)
  obtain u gap where c: "c = (u, gap)" by (metis prod.exhaust)
  let ?w0 = "w\<lparr>clock := clock w + int gap\<rparr>"
  obtain res w1 s1 where f: "fetch_once net u ?w0 s = (res, w1, s1)" by (metis prod_cases3)
  note st = reservation_step[OF nh, where u=u and w="?w0" and s=s, unfolded f, simplified]
  show ?case
  proof (cases "responded net u ?w0 s")
    case True
    with st(1) have "lastRequestTime (rateLimitState s1) \<ge> lastRequestTime (rateLimitState s) + REQUEST_INTERVAL"
      by simp
    with True Cons.IH[of s1 w1] show ?thesis by (simp add: c f)
  next
    case False
    with st(2) have "lastRequestTime (rateLimitState s1) = lastRequestTime (rateLimitState s)" by simp
    with False Cons.IH[of s1 w1] show ?thesis by (simp add: c f)
  qed
qed

lemma window_count_append: "window_count R (xs @ ys) = window_count R xs + window_count R ys"
  by (simp add: window_count_def)

lemma budget_log:
  assumes nh: "no_header_corrections net"
  shows "\<lbrakk>\<forall>e \<in> set pre. snd e \<le> resetTime (rateLimitState s);
          int (window_count (resetTime (rateLimitState s)) pre) + remainingRequests (rateLimitState s)
            \<le> REQUESTS_PER_MINUTE;
          0 \<le> remainingRequests (rateLimitState s);
          \<forall>R. int (window_count R pre) \<le> REQUESTS_PER_MINUTE\<rbrakk>
         \<Longrightarrow> \<forall>R. int (window_count R (pre @ reservation_log net calls w s)) \<le> REQUESTS_PER_MINUTE"
proof (induction calls arbitrary: pre w s)
  case Nil
  then show ?case by simp
next
  case (Cons c calls)
  obtain u gap where c: "c = (u, gap)" by (metis prod.exhaust)
  let ?w0 = "w\<lparr>clock := clock w + int gap\<rparr>"
  obtain res w1 s1 where f: "fetch_once net u ?w0 s = (res, w1, s1)" by (metis prod_cases3)
  note st = reservation_step[OF nh, where u=u and w="?w0" and s=s, unfolded f, simplified]
  let ?r = "rateLimitState s" and ?r1 = "rateLimitState s1"
  have fresh: "window_count R pre = 0" if "R > resetTime ?r" for R
    using Cons.prems(1) that by (auto simp: window_count_def filter_empty_conv)
  show ?case
  proof (cases "responded net u ?w0 s")
    case True
    let ?pre1 = "pre @ [(lastRequestTime ?r1, resetTime ?r1)]"
    from st(1)[OF True] have cases: "(resetTime ?r1 = resetTime ?r \<and> remainingRequests ?r > 0
              \<and> remainingRequests ?r1 = remainingRequests ?r - 1)
            \<or> (resetTime ?r1 > resetTime ?r \<and> remainingRequests ?r1 = REQUESTS_PER_MINUTE - 1)" by simp
    have a: "\<forall>e \<in> set ?pre1. snd e \<le> resetTime ?r1" using Cons.prems(1) cases by auto
    have b: "int (window_count (resetTime ?r1) ?pre1) + remainingRequests ?r1 \<le> REQUESTS_PER_MINUTE"
      using cases Cons.prems(2) fresh[of "resetTime ?r1"]
      by (auto simp: window_count_append) (simp_all add: window_count_def)
    have c0: "0 \<le> remainingRequests ?r1" using cases by (auto simp: REQUESTS_PER_MINUTE_def)
    have d: "\<forall>R. int (window_count R ?pre1) \<le> REQUESTS_PER_MINUTE"
    proof
      fix R
      show "int (window_count R ?pre1) \<le> REQUESTS_PER_MINUTE"
      proof (cases "R = resetTime ?r1")
        case True
        with b c0 show ?thesis by simp
      next
        case False
        then have "window_count R ?pre1 = window_count R pre"
          by (simp add: window_count_append) (simp add: window_count_def)
        with Cons.prems(4) show ?thesis by simp
      qed
    qed
    from Cons.IH[OF a b c0 d, of w1] True show ?thesis by (simp add: c f)
  next
    case False
    from st(2)[OF False] have cases: "(resetTime ?r1 = resetTime ?r \<and> remainingRequests ?r1 = remainingRequests ?r)
            \<or> (resetTime ?r1 > resetTime ?r \<and> remainingRequests ?r1 = REQUESTS_PER_MINUTE)" by simp
    have a: "\<forall>e \<in> set pre. snd e \<le> resetTime ?r1" using Cons.prems(1) cases by auto
    have b: "int (window_count (resetTime ?r1) pre) + remainingRequests ?r1 \<le> REQUESTS_PER_MINUTE"
      using cases Cons.prems(2) fresh[of "resetTime ?r1"] by auto
    have c0: "0 \<le> remainingRequests ?r1" using cases Cons.prems(3) by (auto simp: REQUESTS_PER_MINUTE_def)
    from Cons.IH[OF a b c0 Cons.prems(4), of w1] False show ?thesis by (simp add: c f)
  qed
qed

lemma spaced_lower: "spaced prev ts \<Longrightarrow> t \<in> set ts \<Longrightarrow> t \<ge> prev + REQUEST_INTERVAL"
proof (induction ts arbitrary: prev)
  case Nil
  then show ?case by simp
next
  case (Cons a ts)
  from Cons.prems have "a \<ge> prev + REQUEST_INTERVAL" "spaced a ts" by simp_all
  with Cons.IH[of a] Cons.prems(2) show ?case by (auto simp: REQUEST_INTERVAL_def)
qed

lemma spaced_sorted: "spaced prev ts \<Longrightarrow> sorted_wrt (\<lambda>a b. b - a \<ge> REQUEST_INTERVAL) ts"
proof (induction ts arbitrary: prev)
  case Nil
  show ?case by simp
next
  case (Cons a ts)
  from Cons.prems have s: "spaced a ts" by simp
  have "REQUEST_INTERVAL \<le> x - a" if "x \<in> set ts" for x
    using spaced_lower[OF s that] by simp
  with Cons.IH[OF s] show ?case by simp
qed

lemma spaced_nth:
  "spaced prev ts \<Longrightarrow> i + n < length ts \<Longrightarrow> ts ! (i + n) \<ge> ts ! i + int n * REQUEST_INTERVAL"
proof (induction ts arbitrary: prev i n)
  case Nil
  then show ?case by simp
next
  case (Cons a ts)
  from Cons.prems have s: "spaced a ts" by simp
  show ?case
  proof (cases i)
    case (Suc i')
    with Cons.IH[OF s, of i' n] Cons.prems(2) show ?thesis by simp
  next
    case 0
    show ?thesis
    proof (cases n)
      case 0
      with \<open>i = 0\<close> show ?thesis by simp
    next
      case (Suc n')
      with Cons.prems(2) \<open>i = 0\<close> have n': "0 + n' < length ts" by simp
      from Cons.IH[OF s n'] have "ts ! n' \<ge> ts ! 0 + int n' * REQUEST_INTERVAL" by simp
      moreover from n' have "ts ! 0 \<in> set ts" by (cases ts) auto
      from spaced_lower[OF s this] have "ts ! 0 \<ge> a + REQUEST_INTERVAL" .
      ultimately show ?thesis using Suc \<open>i = 0\<close> by (simp add: algebra_simps)
    qed
  qed
qed

text \<open>
  C5: take any sequence of fetches, each a \<open>waitForRateLimit\<close> followed, when a response
  arrives, by the reservation, with any idle time before each, on a network whose responses
  carry no rate-limit header. Then any two reservations are at least \<open>REQUEST_INTERVAL\<close> apart,
  and the first is that far from the last request before the sequence; any
  \<open>REQUESTS_PER_MINUTE\<close> + 1 reservations in a row span at least one window length, so no
  interval shorter than that holds more than \<open>REQUESTS_PER_MINUTE\<close> of them; and, when the
  sequence starts with a remaining budget between 0 and \<open>REQUESTS_PER_MINUTE\<close>, no window of
  the limiter (the time one value of \<open>resetTime\<close> stands) gets more than
  \<open>REQUESTS_PER_MINUTE\<close> reservations. Time is the model's clock: it never runs backwards
  and a timer never fires early.
\<close>

theorem reservations_spaced_and_budgeted:
  assumes "no_header_corrections net"
  shows "sorted_wrt (\<lambda>a b. b - a \<ge> REQUEST_INTERVAL) (map fst (reservation_log net calls w s))
       \<and> (\<forall>t \<in> set (map fst (reservation_log net calls w s)).
             t - lastRequestTime (rateLimitState s) \<ge> REQUEST_INTERVAL)
       \<and> (\<forall>i. i + nat REQUESTS_PER_MINUTE < length (reservation_log net calls w s) \<longrightarrow>
             fst (reservation_log net calls w s ! (i + nat REQUESTS_PER_MINUTE))
               - fst (reservation_log net calls w s ! i) \<ge> RATE_LIMIT_RESET_INTERVAL)
       \<and> (0 \<le> remainingRequests (rateLimitState s)
            \<and> remainingRequests (rateLimitState s) \<le> REQUESTS_PER_MINUTE \<longrightarrow>
             (\<forall>R. int (window_count R (reservation_log net calls w s)) \<le> REQUESTS_PER_MINUTE))"
proof -
  let ?L = "reservation_log net calls w s"
  have sp: "spaced (lastRequestTime (rateLimitState s)) (map fst ?L)" by (rule spaced_log[OF assms(1)])
  have 1: "sorted_wrt (\<lambda>a b. b - a \<ge> REQUEST_INTERVAL) (map fst ?L)" by (rule spaced_sorted[OF sp])
  have 2: "\<forall>t \<in> set (map fst ?L). t - lastRequestTime (rateLimitState s) \<ge> REQUEST_INTERVAL"
    using spaced_lower[OF sp] by fastforce
  have 3: "\<forall>R. int (window_count R ?L) \<le> REQUESTS_PER_MINUTE"
    if "0 \<le> remainingRequests (rateLimitState s)"
       "remainingRequests (rateLimitState s) \<le> REQUESTS_PER_MINUTE"
    using budget_log[OF assms(1), of "[]" s calls w] that by (simp add: window_count_def)
  have 4: "fst (?L ! (i + nat REQUESTS_PER_MINUTE)) - fst (?L ! i) \<ge> RATE_LIMIT_RESET_INTERVAL"
    if "i + nat REQUESTS_PER_MINUTE < length ?L" for i
  proof -
    from that have "i + nat REQUESTS_PER_MINUTE < length (map fst ?L)" by simp
    from spaced_nth[OF sp this] that show ?thesis
      by (simp add: REQUESTS_PER_MINUTE_def REQUEST_INTERVAL_def RATE_LIMIT_RESET_INTERVAL_def)
  qed
  from 1 2 3 4 show ?thesis by blast
qed

theorem reservations_spaced_and_budgeted_witness:
  "no_header_corrections net_ok
 \<and> remainingRequests (rateLimitState nearly_spent_state) = 1
 \<and> reservation_log net_ok three_fetches world_95 nearly_spent_state
     = [(1453, 60000), (60353, 120103), (61806, 120103)]
 \<and> sorted_wrt (\<lambda>a b. b - a \<ge> REQUEST_INTERVAL)
       (map fst (reservation_log net_ok three_fetches world_95 nearly_spent_state))
 \<and> int (window_count 60000 (reservation_log net_ok three_fetches world_95 nearly_spent_state))
     \<le> REQUESTS_PER_MINUTE"
proof -
  have h: "no_header_corrections net_ok"
    by (simp add: no_header_corrections_def net_ok_def ok_response_def)
  have r: "remainingRequests (rateLimitState nearly_spent_state) = 1"
    by (simp add: nearly_spent_state_def initial_state_def)
  have b: "0 \<le> remainingRequests (rateLimitState nearly_spent_state)"
    "remainingRequests (rateLimitState nearly_spent_state) \<le> REQUESTS_PER_MINUTE"
    by (simp_all add: r REQUESTS_PER_MINUTE_def)
  have l: "reservation_log net_ok three_fetches world_95 nearly_spent_state
           = [(1453, 60000), (60353, 120103), (61806, 120103)]"
    by (simp add: three_fetches_def net_ok_def world_95_def nearly_spent_state_def initial_state_def
        fetch_once_def responded_def waitForRateLimit.simps reset_if_expired_def sleep_def
        do_fetch_def Let_def REQUESTS_PER_MINUTE_def REQUEST_INTERVAL_def
        RATE_LIMIT_RESET_INTERVAL_def REQUEST_TIMEOUT_def ok_response_def
        updateRateLimitFromHeaders_def reserve_request_def)
  from reservations_spaced_and_budgeted[OF h, of three_fetches world_95 nearly_spent_state] b
  have "sorted_wrt (\<lambda>a b. b - a \<ge> REQUEST_INTERVAL)
          (map fst (reservation_log net_ok three_fetches world_95 nearly_spent_state))"
       "int (window_count 60000 (reservation_log net_ok three_fetches world_95 nearly_spent_state))
          \<le> REQUESTS_PER_MINUTE"
    by blast+
  with h r l show ?thesis by simp
qed

end
